theory Spec2Isabelle
  imports Main "HOL-Library.AList"
begin

section \<open>Values of guards and page states\<close>

text \<open>
  The interpreter (\<^verbatim>\<open>Interpreter\<close>, maxun-core) matches \<^emph>\<open>where\<close> clauses against a page
  state. Both are JavaScript objects; the embedding follows their declared TypeScript types
  (\<^verbatim>\<open>Where\<close>, \<^verbatim>\<open>PageState\<close>, \<^verbatim>\<open>SelectorArray\<close>).

  A \<^verbatim>\<open>RegExp\<close> is an object: \<^verbatim>\<open>===\<close> compares it by reference (\<open>rx_id\<close> is the
  reference), \<^verbatim>\<open>String(r)\<close> is \<open>rx_string\<close>, and \<^verbatim>\<open>r.test(s)\<close> is \<open>rx_test\<close> (a
  regular expression without the \<^verbatim>\<open>g\<close> and \<^verbatim>\<open>y\<close> flags, whose \<^verbatim>\<open>test\<close> keeps no state).
\<close>

datatype regexp = RegExp (rx_id: nat) (rx_string: string) (rx_test: "string \<Rightarrow> bool")

text \<open>
  The values of the base conditions and of the page state: a string, a regular expression,
  an array of selectors, or a plain object (the cookies; also what a \<^verbatim>\<open>RegExp\<close> becomes
  after \<^verbatim>\<open>JSON.parse(JSON.stringify(...))\<close>, namely \<^verbatim>\<open>{}\<close>). \<^verbatim>\<open>undefined\<close> is \<open>None\<close>
  of \<open>bval option\<close>.
\<close>

datatype bval =
    Str string
  | Rx regexp
  | Arr "string list"
  | Obj "(string \<times> bval) list"

datatype error = TypeError | DriverError

text \<open>JavaScript truthiness of a value that may be \<^verbatim>\<open>undefined\<close>.\<close>

fun truthy :: "bval option \<Rightarrow> bool" where
  "truthy None = False"
| "truthy (Some (Str s)) = (s \<noteq> [])"
| "truthy (Some v) = True"

text \<open>
  \<^verbatim>\<open>a === b\<close>. Strings compare by value, regular expressions by reference. Two plain
  objects are the same reference only when the state's \<open>url\<close> is the very object of the
  last pair's \<^verbatim>\<open>where.url\<close> (see \<open>getState\<close>); under the declared types that object is
  \<^verbatim>\<open>{}\<close>, for which the deep comparison that follows \<^verbatim>\<open>===\<close> in \<open>inclusive\<close> answers
  the same.
\<close>

fun strict_equals :: "bval \<Rightarrow> bval \<Rightarrow> bool" where
  "strict_equals (Str a) (Str b) = (a = b)"
| "strict_equals (Rx a) (Rx b) = (rx_id a = rx_id b)"
| "strict_equals a b = False"

text \<open>\<^verbatim>\<open>String(v)\<close>, the coercion \<^verbatim>\<open>RegExp.prototype.test\<close> applies to its argument.\<close>

fun to_string :: "bval \<Rightarrow> string" where
  "to_string (Str s) = s"
| "to_string (Rx r) = rx_string r"
| "to_string (Arr a) = concat (case a of [] \<Rightarrow> [] | x # xs \<Rightarrow> x # map (\<lambda>y. CHR '','' # y) xs)"
| "to_string (Obj es) = ''[object Object]''"

text \<open>
  \<^verbatim>\<open>superset[key]\<close>: the own properties of a plain object. The names every object
  inherits, such as \<^verbatim>\<open>constructor\<close>, are not keys here; a guard does not use them. (A
  \<open>superset\<close> that is a string or a regular expression is reached only with an empty
  \<open>subset\<close> under the declared types, so that none of its properties is read.)
\<close>

fun get_prop :: "bval \<Rightarrow> string \<Rightarrow> bval option" where
  "get_prop (Obj es) key = map_of es key"
| "get_prop v key = None"

text \<open>
  Modelled from the spec: \<^verbatim>\<open>arrayToObject\<close> of \<^verbatim>\<open>utils/utils\<close> is not among the sources.
  The spec has arrays ``treated as unordered bags (converted to a mapping by index-keyed
  pairs before comparison)'': every element of the array becomes a key of the mapping.
\<close>

definition arrayToObject :: "string list \<Rightarrow> (string \<times> bval) list" where
  "arrayToObject array = fold (\<lambda>x p. AList.update x (Arr []) p) array []"

fun parsed :: "bval \<Rightarrow> bval" where
  "parsed (Arr a) = Obj (arrayToObject a)"
| "parsed v = v"

fun isArray :: "bval option \<Rightarrow> bool" where
  "isArray (Some (Arr a)) = True"
| "isArray v = False"

fun isEmptyArray :: "bval option \<Rightarrow> bool" where
  "isEmptyArray (Some (Arr a)) = (a = [])"
| "isEmptyArray v = False"

fun array_of :: "bval option \<Rightarrow> string list" where
  "array_of (Some (Arr a)) = a"
| "array_of v = []"

fun isRegExp :: "bval \<Rightarrow> bool" where
  "isRegExp (Rx r) = True"
| "isRegExp v = False"

fun test :: "bval \<Rightarrow> string \<Rightarrow> bool" where
  "test (Rx r) s = rx_test r s"
| "test v s = False"

fun isObject :: "bval \<Rightarrow> bool" where
  "isObject (Str s) = False"
| "isObject v = True"

fun entries :: "bval \<Rightarrow> (string \<times> bval) list" where
  "entries (Obj es) = es"
| "entries v = []"

fun weight :: "bval \<Rightarrow> nat" and weights :: "(string \<times> bval) list \<Rightarrow> nat" where
  "weight (Str s) = 0"
| "weight (Rx r) = 0"
| "weight (Arr a) = length a"
| "weight (Obj es) = weights es"
| "weights [] = 0"
| "weights ((k, v) # es) = Suc (weight v + weights es)"

lemma weights_update: "weights (AList.update x (Arr []) p) \<le> Suc (weights p)"
  by (induction p) (auto simp: AList.update.simps)

lemma weights_fold_update:
  "weights (fold (\<lambda>x p. AList.update x (Arr []) p) a p) \<le> length a + weights p"
proof (induction a arbitrary: p)
  case Nil
  then show ?case by simp
next
  case (Cons x a)
  have "weights (fold (\<lambda>x p. AList.update x (Arr []) p) a (AList.update x (Arr []) p))
      \<le> length a + weights (AList.update x (Arr []) p)"
    by (rule Cons.IH)
  also have "\<dots> \<le> length a + Suc (weights p)"
    using weights_update [of x p] by simp
  finally show ?case by simp
qed

lemma weights_entries_parsed: "weights (entries (parsed v)) \<le> weight v"
proof (cases v)
  case (Arr a)
  then show ?thesis
    using weights_fold_update [of a "[]"] by (simp add: arrayToObject_def)
qed simp_all

text \<open>
  \<^verbatim>\<open>inclusive(subset, superset)\<close>: \<^verbatim>\<open>Object.entries(subset).every(...)\<close>, one entry at a
  time. The first two tests are the special cases of the keys \<^verbatim>\<open>url\<close> and \<^verbatim>\<open>selectors\<close>;
  the last is the general comparison.
\<close>

function inclusive :: "(string \<times> bval) list \<Rightarrow> bval \<Rightarrow> bool" where
  "inclusive [] superset = True"
| "inclusive ((key, value) # rest) superset =
    ((if (key = ''url'' \<or> key = ''selectors'') \<and> isEmptyArray (Some value) \<and> isEmptyArray (get_prop superset key)
        then True
      else if key = ''selectors'' \<and> isArray (Some value) \<and> isArray (get_prop superset key)
        then list_ex (\<lambda>selector. selector \<in> set (array_of (get_prop superset key))) (array_of (Some value))
      else (case map_option parsed (get_prop superset key) of
          None \<Rightarrow> False
        | Some parsedSuperset \<Rightarrow>
            truthy (Some parsedSuperset)
            \<and> (strict_equals parsedSuperset (parsed value)
               \<or> (isRegExp (parsed value) \<and> test (parsed value) (to_string parsedSuperset))
               \<or> (\<not> isRegExp (parsed value) \<and> isObject (parsed value)
                   \<and> inclusive (entries (parsed value)) parsedSuperset))))
     \<and> inclusive rest superset)"
  by pat_completeness auto
termination
proof (relation "measure (\<lambda>(subset, superset). weights subset)", goal_cases)
  case 1
  show ?case by simp
next
  case (2 key v rest superset parsedSuperset)
  show ?case using weights_entries_parsed [of v] by simp
next
  case (3 key v rest superset)
  show ?case by simp
qed

section \<open>Guards and the matcher\<close>

text \<open>
  The value of \<^verbatim>\<open>$before\<close> and \<^verbatim>\<open>$after\<close>: a string or a regular expression. \<open>MObject\<close>
  is the plain object \<^verbatim>\<open>{}\<close> a regular expression becomes in the copy
  \<^verbatim>\<open>JSON.parse(JSON.stringify(workflow))\<close> of \<open>runLoop\<close>; it has no \<^verbatim>\<open>test\<close> method.
\<close>

datatype metaval = MStr string | MRegExp regexp | MObject

text \<open>
  A \<^verbatim>\<open>Where\<close> object is the list of its entries, in the order of \<^verbatim>\<open>Object.entries\<close>. The
  constructor of an entry is its key: \<^verbatim>\<open>$and\<close>, \<^verbatim>\<open>$or\<close>, \<^verbatim>\<open>$not\<close> (the list \<^verbatim>\<open>operators\<close>
  of \<^verbatim>\<open>types/logic\<close>; the spec's combinators), \<^verbatim>\<open>$before\<close>, \<^verbatim>\<open>$after\<close> (the list
  \<^verbatim>\<open>meta\<close>; the spec's meta predicates), and \<open>Base key value\<close> for every other key (the
  base conditions \<^verbatim>\<open>url\<close>, \<^verbatim>\<open>cookies\<close>, \<^verbatim>\<open>selectors\<close>). The operand of \<^verbatim>\<open>$and\<close> and
  \<^verbatim>\<open>$or\<close> is an array of \<^verbatim>\<open>Where\<close> objects (\<open>WhereArray\<close>) or, in the code's
  other branch, one object (\<open>WhereObject\<close>, the list of its entries), each entry of which is
  taken as the one-entry object \<^verbatim>\<open>Object.fromEntries([a])\<close>.
\<close>

datatype cond =
    Op_and operand
  | Op_or operand
  | Op_not Where
  | Before metaval
  | After metaval
  | Base string bval
and Where = Where "cond list"
and operand = WhereArray "Where list" | WhereObject "cond list"

record PageState =
  url :: "bval option"
  cookies :: "(string \<times> string) list"
  selectors :: "string list"

text \<open>The page state as the object \<open>inclusive\<close> reads.\<close>

definition context_obj :: "PageState \<Rightarrow> bval" where
  "context_obj context = Obj
     ((case url context of None \<Rightarrow> [] | Some u \<Rightarrow> [(''url'', u)])
      @ [(''cookies'', Obj (map (\<lambda>(name, v). (name, Str v)) (cookies context))),
         (''selectors'', Arr (selectors context))])"

text \<open>\<^verbatim>\<open>testRegexString\<close> of the meta operators, and \<^verbatim>\<open>usedActions.find(testRegexString)\<close>.\<close>

fun testRegexString :: "metaval \<Rightarrow> string \<Rightarrow> error + bool" where
  "testRegexString (MStr v) x = Inr (x = v)"
| "testRegexString (MRegExp r) x = Inr (rx_test r x)"
| "testRegexString MObject x = Inl TypeError"

fun find_used :: "metaval \<Rightarrow> string list \<Rightarrow> error + string option" where
  "find_used v [] = Inr None"
| "find_used v (x # xs) =
    (case testRegexString v x of
       Inl e \<Rightarrow> Inl e
     | Inr True \<Rightarrow> Inr (Some x)
     | Inr False \<Rightarrow> find_used v xs)"

text \<open>Truthiness of what \<^verbatim>\<open>find\<close> returns: \<^verbatim>\<open>undefined\<close> and the empty string are falsy.\<close>

fun truthy_found :: "string option \<Rightarrow> bool" where
  "truthy_found None = False"
| "truthy_found (Some x) = (x \<noteq> [])"

text \<open>
  \<^verbatim>\<open>Array.prototype.every\<close> and \<^verbatim>\<open>Array.prototype.some\<close> over the results of the callback,
  in order: a callback that throws ends the scan with its error, \<^verbatim>\<open>false\<close> (for
  \<^verbatim>\<open>every\<close>) or \<^verbatim>\<open>true\<close> (for \<^verbatim>\<open>some\<close>) ends it with that answer. The callbacks
  here have no effect, so that the results of the calls the scan never makes are not observed.
\<close>

fun every_r :: "(error + bool) list \<Rightarrow> error + bool" where
  "every_r [] = Inr True"
| "every_r (r # rs) =
    (case r of Inl err \<Rightarrow> Inl err | Inr False \<Rightarrow> Inr False | Inr True \<Rightarrow> every_r rs)"

fun some_r :: "(error + bool) list \<Rightarrow> error + bool" where
  "some_r [] = Inr False"
| "some_r (r # rs) =
    (case r of Inl err \<Rightarrow> Inl err | Inr True \<Rightarrow> Inr True | Inr False \<Rightarrow> some_r rs)"

text \<open>
  \<^verbatim>\<open>applicable(where, context, usedActions = [])\<close>: \<^verbatim>\<open>Object.entries(where).every\<close> over
  \<open>applicable_entry\<close>, its callback. \<open>operand_results\<close> holds the results of
  \<^verbatim>\<open>(x) => this.applicable(x, context)\<close> over the operand \<^verbatim>\<open>array\<close> of \<^verbatim>\<open>$and\<close> and
  \<^verbatim>\<open>$or\<close>. The recursive calls pass no \<^verbatim>\<open>usedActions\<close>, which is then the default
  \<^verbatim>\<open>[]\<close>. For an operand that is not an array, \<^verbatim>\<open>x\<close> is a one-entry object, on which
  \<^verbatim>\<open>applicable\<close> is the callback on that entry (\<open>applicable_single\<close> below). The
  \<^verbatim>\<open>default\<close> branches of the two \<^verbatim>\<open>switch\<close> statements are not reached: every key of
  \<^verbatim>\<open>operators\<close> and of \<^verbatim>\<open>meta\<close> has its \<^verbatim>\<open>case\<close>.
\<close>

primrec applicable :: "Where \<Rightarrow> PageState \<Rightarrow> string list \<Rightarrow> error + bool"
  and applicable_entry :: "cond \<Rightarrow> PageState \<Rightarrow> string list \<Rightarrow> error + bool"
  and operand_results :: "operand \<Rightarrow> PageState \<Rightarrow> (error + bool) list"
where
  "applicable (Where es) context usedActions =
     every_r (map (\<lambda>e. applicable_entry e context usedActions) es)"
| "applicable_entry (Op_and array) context usedActions = every_r (operand_results array context)"
| "applicable_entry (Op_or array) context usedActions = some_r (operand_results array context)"
| "applicable_entry (Op_not w) context usedActions =
    (case applicable w context [] of Inl err \<Rightarrow> Inl err | Inr b \<Rightarrow> Inr (\<not> b))"
| "applicable_entry (Before v) context usedActions =
    (case find_used v usedActions of
       Inl err \<Rightarrow> Inl err
     | Inr found \<Rightarrow> Inr (\<not> truthy_found found))"
| "applicable_entry (After v) context usedActions =
    (case find_used v usedActions of
       Inl err \<Rightarrow> Inl err
     | Inr found \<Rightarrow> Inr (truthy_found found))"
| "applicable_entry (Base key value) context usedActions =
    Inr (inclusive [(key, value)] (context_obj context))"
| "operand_results (WhereArray array) context = map (\<lambda>x. applicable x context []) array"
| "operand_results (WhereObject es) context = map (\<lambda>a. applicable_entry a context []) es"

section \<open>Guards that differ by one child\<close>

text \<open>
  \<open>adds_w k n w w'\<close>: the guard \<open>w'\<close> is the guard \<open>w\<close> with one child added, at any place
  among the children, to one \<^verbatim>\<open>$and\<close> node (\<open>k = And_node\<close>) or \<^verbatim>\<open>$or\<close> node
  (\<open>k = Or_node\<close>) of \<open>w\<close>, and \<open>n\<close> is the number of \<^verbatim>\<open>$not\<close> operators on the way from
  \<open>w\<close> down to that node. \<open>adds_c\<close> is the same relation between two entries of a guard and
  \<open>adds_o\<close> between two operands of \<^verbatim>\<open>$and\<close> or \<^verbatim>\<open>$or\<close>. The operand of the node is
  an array of guards or an object; the node itself is an entry of a guard, of an object
  operand, or of a guard in an array operand, at any depth.
\<close>

datatype node = And_node | Or_node

inductive adds_w :: "node \<Rightarrow> nat \<Rightarrow> Where \<Rightarrow> Where \<Rightarrow> bool"
  and adds_c :: "node \<Rightarrow> nat \<Rightarrow> cond \<Rightarrow> cond \<Rightarrow> bool"
  and adds_o :: "node \<Rightarrow> nat \<Rightarrow> operand \<Rightarrow> operand \<Rightarrow> bool"
where
  in_guard: "adds_c k n e e' \<Longrightarrow> adds_w k n (Where (pre @ e # post)) (Where (pre @ e' # post))"
| and_array: "adds_c And_node 0 (Op_and (WhereArray (xs @ ys))) (Op_and (WhereArray (xs @ c # ys)))"
| and_object: "adds_c And_node 0 (Op_and (WhereObject (as @ bs))) (Op_and (WhereObject (as @ a # bs)))"
| or_array: "adds_c Or_node 0 (Op_or (WhereArray (xs @ ys))) (Op_or (WhereArray (xs @ c # ys)))"
| or_object: "adds_c Or_node 0 (Op_or (WhereObject (as @ bs))) (Op_or (WhereObject (as @ a # bs)))"
| below_and: "adds_o k n opd opd' \<Longrightarrow> adds_c k n (Op_and opd) (Op_and opd')"
| below_or: "adds_o k n opd opd' \<Longrightarrow> adds_c k n (Op_or opd) (Op_or opd')"
| below_not: "adds_w k n w w' \<Longrightarrow> adds_c k (Suc n) (Op_not w) (Op_not w')"
| in_array: "adds_w k n w w' \<Longrightarrow> adds_o k n (WhereArray (xs @ w # ys)) (WhereArray (xs @ w' # ys))"
| in_object: "adds_c k n e e' \<Longrightarrow> adds_o k n (WhereObject (as @ e # bs)) (WhereObject (as @ e' # bs))"

section \<open>Actions\<close>

text \<open>
  The \<^verbatim>\<open>args\<close> of an action is a JSON value, or absent (\<^verbatim>\<open>undefined\<close>).
\<close>

datatype arg =
    AUndefined
  | ANull
  | ABool bool
  | ANum int
  | AStr string
  | AArr "arg list"
  | AObj "(string \<times> arg) list"

record What =
  action :: string
  args :: arg

record WhereWhatPair =
  pair_id :: "string option"
  pair_where :: Where
  what :: "What list"

text \<open>
  \<^verbatim>\<open>getMatchingActionId\<close>: the loop \<^verbatim>\<open>for (actionId = workflow.length - 1; actionId >= 0;
  actionId--)\<close>; \<open>matching_below\<close> at \<open>n\<close> is the loop with the \<open>n\<close> indices below
  \<open>n = actionId + 1\<close> still to visit. Falling out of the loop returns \<^verbatim>\<open>undefined\<close>
  (\<open>None\<close>).
\<close>

fun matching_below ::
  "WhereWhatPair list \<Rightarrow> PageState \<Rightarrow> string list \<Rightarrow> nat \<Rightarrow> error + nat option" where
  "matching_below workflow pageState usedActions 0 = Inr None"
| "matching_below workflow pageState usedActions (Suc actionId) =
    (case applicable (pair_where (workflow ! actionId)) pageState usedActions of
       Inl err \<Rightarrow> Inl err
     | Inr True \<Rightarrow> Inr (Some actionId)
     | Inr False \<Rightarrow> matching_below workflow pageState usedActions actionId)"

definition getMatchingActionId ::
  "WhereWhatPair list \<Rightarrow> PageState \<Rightarrow> string list \<Rightarrow> error + nat option" where
  "getMatchingActionId workflow pageState usedActions =
     matching_below workflow pageState usedActions (length workflow)"

section \<open>The executor\<close>

text \<open>
  A call the executor makes: a method of the page, reached through the members
  \<^verbatim>\<open>page.a.b\<close> named by the path, or one of the interpreter's own actions
  (\<^verbatim>\<open>wawActions\<close>), whose bodies are not unfolded here.
\<close>

datatype call =
    Method "string list" string "arg list"
  | Waw string "arg list"

datatype event = Fired nat | Called call | Slept nat | Closed

text \<open>
  The page, as the interpreter observes it: what each awaited operation answers at the
  time it is asked. \<open>succeeds\<close> tells whether a call resolves (otherwise it throws or its
  promise is rejected), \<open>member_defined\<close> whether the member at a path from the page is an
  object, \<open>attached\<close> whether \<^verbatim>\<open>waitForSelector(selector, {state: 'attached'})\<close>
  resolves, \<open>cookies_at\<close> what \<^verbatim>\<open>page.context().cookies([page.url()])\<close> resolves to
  (\<open>None\<close> when it is rejected).
\<close>

record Page =
  isClosed :: "nat \<Rightarrow> bool"
  loadState_ok :: "nat \<Rightarrow> bool"
  attached :: "nat \<Rightarrow> string \<Rightarrow> bool"
  url_at :: "nat \<Rightarrow> string"
  cookies_at :: "nat \<Rightarrow> (string \<times> string) list option"
  member_defined :: "string list \<Rightarrow> bool"
  succeeds :: "nat \<Rightarrow> call \<Rightarrow> bool"

text \<open>The time, counted in awaited operations, and the log of events, the latest first.\<close>

record world =
  clock :: nat
  log :: "event list"

definition tick :: "world \<Rightarrow> world" where
  "tick w = w\<lparr>clock := Suc (clock w)\<rparr>"

definition record_event :: "event \<Rightarrow> world \<Rightarrow> world" where
  "record_event e w = w\<lparr>clock := Suc (clock w), log := e # log w\<rparr>"

definition invoke :: "Page \<Rightarrow> world \<Rightarrow> call \<Rightarrow> (error + unit) \<times> world" where
  "invoke page w c =
     (if succeeds page (clock w) c then Inr () else Inl DriverError, record_event (Called c) w)"

text \<open>\<^verbatim>\<open>!args\<close>, \<^verbatim>\<open>Array.isArray(args)\<close>, the spread \<^verbatim>\<open>...(args ?? [])\<close> and \<^verbatim>\<open>step.args[0]\<close>.\<close>

fun falsy :: "arg \<Rightarrow> bool" where
  "falsy AUndefined = True"
| "falsy ANull = True"
| "falsy (ABool b) = (\<not> b)"
| "falsy (ANum n) = (n = 0)"
| "falsy (AStr s) = (s = [])"
| "falsy a = False"

fun isArr :: "arg \<Rightarrow> bool" where
  "isArr (AArr xs) = True"
| "isArr a = False"

fun spread :: "arg \<Rightarrow> error + arg list" where
  "spread AUndefined = Inr []"
| "spread ANull = Inr []"
| "spread (AArr xs) = Inr xs"
| "spread (AStr s) = Inr (map (\<lambda>c. AStr [c]) s)"
| "spread a = Inl TypeError"

fun first_arg :: "arg \<Rightarrow> error + arg" where
  "first_arg AUndefined = Inl TypeError"
| "first_arg ANull = Inl TypeError"
| "first_arg (AArr xs) = Inr (case xs of [] \<Rightarrow> AUndefined | x # rest \<Rightarrow> x)"
| "first_arg (AStr s) = Inr (case s of [] \<Rightarrow> AUndefined | c # rest \<Rightarrow> AStr [c])"
| "first_arg (AObj es) = Inr (case map_of es ''0'' of None \<Rightarrow> AUndefined | Some v \<Rightarrow> v)"
| "first_arg a = Inr AUndefined"

text \<open>
  The arguments \<^verbatim>\<open>executeAction\<close> passes: at most two for \<^verbatim>\<open>press\<close> and \<^verbatim>\<open>type\<close>,
  the spread of a falsy or array \<^verbatim>\<open>args\<close>, the one value otherwise.
\<close>

definition call_args :: "string \<Rightarrow> arg \<Rightarrow> error + arg list" where
  "call_args methodName a =
     (if methodName = ''press'' \<or> methodName = ''type''
        then Inr (case a of AArr xs \<Rightarrow> take 2 xs | other \<Rightarrow> [a])
      else if falsy a \<or> isArr a then spread a
      else Inr [a])"

definition is_defined :: "Page \<Rightarrow> string list \<Rightarrow> bool" where
  "is_defined page path = (path = [] \<or> member_defined page path)"

definition executeAction ::
  "Page \<Rightarrow> world \<Rightarrow> string list \<Rightarrow> string \<Rightarrow> arg \<Rightarrow> (error + unit) \<times> world" where
  "executeAction page w invokee methodName a =
     (if \<not> is_defined page invokee then (Inl TypeError, w)
      else case call_args methodName a of
             Inl e \<Rightarrow> (Inl e, w)
           | Inr actual \<Rightarrow> invoke page w (Method invokee methodName actual))"

text \<open>
  \<^verbatim>\<open>String(step.action).split('.')\<close>, and the walk \<^verbatim>\<open>invokee = invokee[level]\<close> over
  all levels but the last: reading a member of \<^verbatim>\<open>undefined\<close> throws.
\<close>

fun split_dot :: "string \<Rightarrow> string list" where
  "split_dot [] = [[]]"
| "split_dot (c # cs) =
    (if c = CHR ''.'' then [] # split_dot cs
     else (case split_dot cs of [] \<Rightarrow> [[c]] | x # xs \<Rightarrow> (c # x) # xs))"

fun resolve :: "Page \<Rightarrow> string list \<Rightarrow> string list \<Rightarrow> error + string list" where
  "resolve page invokee [] = Inr invokee"
| "resolve page invokee (level # levels) =
    (if is_defined page invokee then resolve page (invokee @ [level]) levels else Inl TypeError)"

text \<open>
  The keys of \<^verbatim>\<open>wawActions\<close>. (\<^verbatim>\<open>step.action in wawActions\<close> also holds for the names
  every object inherits, such as \<^verbatim>\<open>toString\<close>; a workflow does not use them as actions.)
\<close>

definition wawActions :: "string list" where
  "wawActions = [''screenshot'', ''enqueueLinks'', ''scrape'', ''scrapeSchema'', ''scrapeList'',
     ''scrapeListAuto'', ''scroll'', ''script'', ''flag'']"

definition waw_params :: "arg \<Rightarrow> error + arg list" where
  "waw_params a = (if falsy a \<or> isArr a then spread a else Inr [a])"

text \<open>
  One turn of the loop \<^verbatim>\<open>for (const step of steps)\<close>: \<open>Done\<close> when the step reached
  the end of the loop body (the pause of 500 ms follows), \<open>Continue\<close> when it left it through
  \<^verbatim>\<open>continue\<close> (no pause), \<open>Threw\<close> when an error leaves \<^verbatim>\<open>carryOutSteps\<close>.
\<close>

datatype step_result = Done | Continue | Threw error

definition force_args :: "arg \<Rightarrow> arg" where
  "force_args a0 = AArr [a0, AObj [(''force'', ABool True)]]"

definition carry_step :: "Page \<Rightarrow> world \<Rightarrow> What \<Rightarrow> step_result \<times> world" where
  "carry_step page w step =
    (if action step \<in> set wawActions then
       (case waw_params (args step) of
          Inl e \<Rightarrow> (Threw e, w)
        | Inr params \<Rightarrow>
            (case invoke page w (Waw (action step) params) of
               (Inl e, w') \<Rightarrow> (Threw e, w')
             | (Inr u, w') \<Rightarrow> (Done, w')))
     else
       (let levels = split_dot (action step); methodName = last levels in
        case resolve page [] (butlast levels) of
          Inl e \<Rightarrow> (Threw e, w)
        | Inr invokee \<Rightarrow>
            if methodName = ''waitForLoadState'' then
              (case executeAction page w invokee methodName (args step) of
                 (Inr u, w') \<Rightarrow> (Done, w')
               | (Inl error, w') \<Rightarrow>
                   (case executeAction page w' invokee methodName (AStr ''domcontentloaded'') of
                      (Inr u, w'') \<Rightarrow> (Done, w'')
                    | (Inl e, w'') \<Rightarrow> (Threw e, w'')))
            else if methodName = ''click'' then
              (case executeAction page w invokee methodName (args step) of
                 (Inr u, w') \<Rightarrow> (Done, w')
               | (Inl error, w') \<Rightarrow>
                   (case first_arg (args step) of
                      Inl e \<Rightarrow> (Continue, w')
                    | Inr a0 \<Rightarrow>
                        (case executeAction page w' invokee methodName (force_args a0) of
                           (Inr u, w'') \<Rightarrow> (Done, w'')
                         | (Inl e, w'') \<Rightarrow> (Continue, w''))))
            else
              (case executeAction page w invokee methodName (args step) of
                 (Inr u, w') \<Rightarrow> (Done, w')
               | (Inl e, w') \<Rightarrow> (Threw e, w'))))"

fun carryOutSteps :: "Page \<Rightarrow> world \<Rightarrow> What list \<Rightarrow> (error + unit) \<times> world" where
  "carryOutSteps page w [] = (Inr (), w)"
| "carryOutSteps page w (step # steps) =
    (case carry_step page w step of
       (Threw e, w') \<Rightarrow> (Inl e, w')
     | (Continue, w') \<Rightarrow> carryOutSteps page w' steps
     | (Done, w') \<Rightarrow> carryOutSteps page (record_event (Slept 500) w') steps)"

section \<open>The page state and the main loop\<close>

text \<open>
  \<^verbatim>\<open>where.url\<close> and \<^verbatim>\<open>where.selectors\<close>: the property of the \<^verbatim>\<open>where\<close> object under a
  base key, \<^verbatim>\<open>undefined\<close> (\<open>None\<close>) when the object has no such key.
\<close>

fun base_entry :: "cond \<Rightarrow> (string \<times> bval) list" where
  "base_entry (Base key value) = [(key, value)]"
| "base_entry e = []"

fun where_prop :: "Where \<Rightarrow> string \<Rightarrow> bval option" where
  "where_prop (Where es) key = map_of (concat (map base_entry es)) key"

text \<open>\<^verbatim>\<open>v !== s\<close> for a value \<open>v\<close> that may be \<^verbatim>\<open>undefined\<close> and a string \<open>s\<close>.\<close>

fun differs :: "bval option \<Rightarrow> string \<Rightarrow> bool" where
  "differs (Some (Str a)) s = (a \<noteq> s)"
| "differs v s = True"

text \<open>
  \<^verbatim>\<open>getState(page, workflowCopy, selectors)\<close> at the time \<open>t\<close>. The cookies are folded
  into an object, a later cookie of the same name replacing the earlier one.
\<close>

definition state_url :: "string \<Rightarrow> WhereWhatPair list \<Rightarrow> bval option" where
  "state_url live workflowCopy =
     (if workflowCopy \<noteq> []
         \<and> differs (where_prop (pair_where (last workflowCopy)) ''url'') live
         \<and> differs (where_prop (pair_where (last workflowCopy)) ''url'') ''about:blank''
      then where_prop (pair_where (last workflowCopy)) ''url''
      else Some (Str live))"

definition getState :: "Page \<Rightarrow> nat \<Rightarrow> WhereWhatPair list \<Rightarrow> string list \<Rightarrow> error + PageState" where
  "getState page t workflowCopy sels =
     (let presentSelectors = concat (map (\<lambda>selector. if attached page t selector then [selector] else []) sels)
      in case cookies_at page t of
           None \<Rightarrow> Inl DriverError
         | Some cs \<Rightarrow> Inr \<lparr>url = state_url (url_at page t) workflowCopy,
                            cookies = fold (\<lambda>(name, v) p. AList.update name v p) cs [],
                            selectors = presentSelectors\<rparr>)"

text \<open>
  \<^verbatim>\<open>JSON.parse(JSON.stringify(workflow))\<close>: a regular expression becomes \<^verbatim>\<open>{}\<close>; in an
  array \<^verbatim>\<open>undefined\<close> becomes \<^verbatim>\<open>null\<close>, in an object its key is dropped.
\<close>

fun json_meta :: "metaval \<Rightarrow> metaval" where
  "json_meta (MRegExp r) = MObject"
| "json_meta v = v"

primrec json_bval :: "bval \<Rightarrow> bval" where
  "json_bval (Str s) = Str s"
| "json_bval (Rx r) = Obj []"
| "json_bval (Arr a) = Arr a"
| "json_bval (Obj es) = Obj (map (map_prod id json_bval) es)"

primrec json_where :: "Where \<Rightarrow> Where"
  and json_cond :: "cond \<Rightarrow> cond"
  and json_operand :: "operand \<Rightarrow> operand"
where
  "json_where (Where es) = Where (map json_cond es)"
| "json_cond (Op_and array) = Op_and (json_operand array)"
| "json_cond (Op_or array) = Op_or (json_operand array)"
| "json_cond (Op_not w) = Op_not (json_where w)"
| "json_cond (Before v) = Before (json_meta v)"
| "json_cond (After v) = After (json_meta v)"
| "json_cond (Base key value) = Base key (json_bval value)"
| "json_operand (WhereArray array) = WhereArray (map json_where array)"
| "json_operand (WhereObject es) = WhereObject (map json_cond es)"

fun null_if_undefined :: "arg \<Rightarrow> arg" where
  "null_if_undefined AUndefined = ANull"
| "null_if_undefined a = a"

primrec json_arg :: "arg \<Rightarrow> arg" where
  "json_arg AUndefined = AUndefined"
| "json_arg ANull = ANull"
| "json_arg (ABool b) = ABool b"
| "json_arg (ANum n) = ANum n"
| "json_arg (AStr s) = AStr s"
| "json_arg (AArr xs) = AArr (map (\<lambda>x. null_if_undefined (json_arg x)) xs)"
| "json_arg (AObj es) =
     AObj (filter (\<lambda>(k, v). v \<noteq> AUndefined) (map (map_prod id json_arg) es))"

definition json_what :: "What \<Rightarrow> What" where
  "json_what step = step\<lparr>args := json_arg (args step)\<rparr>"

definition json_pair :: "WhereWhatPair \<Rightarrow> WhereWhatPair" where
  "json_pair pair = \<lparr>pair_id = pair_id pair, pair_where = json_where (pair_where pair),
                     what = map json_what (what pair)\<rparr>"

text \<open>\<^verbatim>\<open>selector.includes(sub)\<close>, and \<^verbatim>\<open>removeSpecialSelectors\<close>.\<close>

fun str_includes :: "string \<Rightarrow> string \<Rightarrow> bool" where
  "str_includes [] sub = (sub = [])"
| "str_includes (c # cs) sub = (take (length sub) (c # cs) = sub \<or> str_includes cs sub)"

fun strip_special :: "cond \<Rightarrow> cond" where
  "strip_special (Base key (Arr a)) =
     (if key = ''selectors''
      then Base key (Arr (filter (\<lambda>selector. \<not> (str_includes selector '':>>'' \<or> str_includes selector ''>>'')) a))
      else Base key (Arr a))"
| "strip_special e = e"

definition removeSpecialSelectors :: "WhereWhatPair list \<Rightarrow> WhereWhatPair list" where
  "removeSpecialSelectors workflow =
     map (\<lambda>step. step\<lparr>pair_where := (case pair_where step of Where es \<Rightarrow> Where (map strip_special es))\<rparr>)
       workflow"

text \<open>
  \<^verbatim>\<open>getSelectors\<close>: the selectors of the last pair that has a non-empty \<^verbatim>\<open>where.selectors\<close>,
  without repetitions (\<^verbatim>\<open>Array.from\<close> of a \<^verbatim>\<open>Set\<close> keeps each first occurrence).
  \<open>selectors_below\<close> at \<open>n\<close> is the loop with the indices below \<open>n\<close> still to visit.
\<close>

definition distinct_first :: "string list \<Rightarrow> string list" where
  "distinct_first xs = rev (remdups (rev xs))"

fun selectors_below :: "WhereWhatPair list \<Rightarrow> nat \<Rightarrow> error + string list" where
  "selectors_below workflow 0 = Inr []"
| "selectors_below workflow (Suc index) =
    (case where_prop (pair_where (workflow ! index)) ''selectors'' of
       Some (Arr a) \<Rightarrow> if a \<noteq> [] then Inr (distinct_first a) else selectors_below workflow index
     | Some (Str s) \<Rightarrow> if s \<noteq> [] then Inl TypeError else selectors_below workflow index
     | other \<Rightarrow> selectors_below workflow index)"

definition getSelectors :: "WhereWhatPair list \<Rightarrow> error + string list" where
  "getSelectors workflow = selectors_below workflow (length workflow)"

text \<open>
  The state of \<^verbatim>\<open>runLoop\<close>. The pairs of the copy are objects: \<^verbatim>\<open>action === lastAction\<close>
  compares references, so each pair carries its address, its index in the fresh copy.
\<close>

record LoopState =
  workflowCopy :: "(nat \<times> WhereWhatPair) list"
  usedActions :: "string list"
  sels :: "string list"
  lastAction :: "nat option"
  repeatCount :: nat

datatype outcome = Returned | Rejected error | Running

text \<open>
  \<^verbatim>\<open>this.options.maxRepeats && repeatCount > this.options.maxRepeats\<close>: the number \<^verbatim>\<open>0\<close>
  is falsy.
\<close>

definition repeat_limit :: "int \<Rightarrow> nat \<Rightarrow> bool" where
  "repeat_limit maxRepeats count = (maxRepeats \<noteq> 0 \<and> int count > maxRepeats)"

text \<open>
  What follows a body that ran to its end: the id is pushed, the pair is removed from the
  copy, the candidate selectors are computed anew. An error there is caught and logged, as
  one thrown by the body is.
\<close>

definition after_body :: "LoopState \<Rightarrow> nat \<Rightarrow> WhereWhatPair \<Rightarrow> LoopState" where
  "after_body st actionId matched =
     (let copy' = take actionId (workflowCopy st) @ drop (Suc actionId) (workflowCopy st) in
      st\<lparr>workflowCopy := copy',
         usedActions := usedActions st @ [case pair_id matched of None \<Rightarrow> ''undefined'' | Some i \<Rightarrow> i],
         sels := (case getSelectors (map snd copy') of Inl e \<Rightarrow> [] | Inr new \<Rightarrow> new)\<rparr>)"

text \<open>
  One turn of \<^verbatim>\<open>while (true)\<close> in \<^verbatim>\<open>runLoop\<close>: \<open>Inl\<close> when the function returns (or its
  promise is rejected: an error of the matcher is not caught), \<open>Inr\<close> the state of the next
  turn. \<open>stopped\<close> tells whether \<^verbatim>\<open>this.stopper\<close> is \<^verbatim>\<open>null\<close>.
\<close>

definition loop_body ::
  "int \<Rightarrow> (nat \<Rightarrow> bool) \<Rightarrow> Page \<Rightarrow> LoopState \<Rightarrow> world \<Rightarrow> (outcome + LoopState) \<times> world" where
  "loop_body maxRepeats stopped p st w =
    (if isClosed p (clock w) \<or> stopped (clock w) then (Inl Returned, w)
     else if \<not> loadState_ok p (clock w) then (Inl Returned, record_event Closed w)
     else
       (case getState p (Suc (clock w)) (map snd (workflowCopy st)) (sels st) of
          Inl e \<Rightarrow> (Inl Returned, tick (tick w))
        | Inr pageState \<Rightarrow>
            (case getMatchingActionId (map snd (workflowCopy st)) pageState (usedActions st) of
               Inl e \<Rightarrow> (Inl (Rejected e), tick (tick w))
             | Inr None \<Rightarrow> (Inl Returned, tick (tick w))
             | Inr (Some actionId) \<Rightarrow>
                 (let addr = fst (workflowCopy st ! actionId);
                      matched = snd (workflowCopy st ! actionId);
                      count = (if lastAction st = Some addr then repeatCount st + 1 else 0)
                  in if repeat_limit maxRepeats count then (Inl Returned, tick (tick w))
                     else
                       (case carryOutSteps p (record_event (Fired addr) (tick (tick w))) (what matched) of
                          (Inr u, w') \<Rightarrow>
                            (Inr ((after_body st actionId matched)\<lparr>lastAction := Some addr, repeatCount := count\<rparr>), w')
                        | (Inl e, w') \<Rightarrow>
                            (Inr (st\<lparr>sels := [], lastAction := Some addr, repeatCount := count\<rparr>), w'))))))"

text \<open>
  The loop, for at most \<open>fuel\<close> turns; \<open>Running\<close> when it has not returned by then.
\<close>

fun turns ::
  "nat \<Rightarrow> int \<Rightarrow> (nat \<Rightarrow> bool) \<Rightarrow> Page \<Rightarrow> LoopState \<Rightarrow> world \<Rightarrow> outcome \<times> LoopState \<times> world" where
  "turns 0 maxRepeats stopped p st w = (Running, st, w)"
| "turns (Suc fuel) maxRepeats stopped p st w =
    (case loop_body maxRepeats stopped p st w of
       (Inl out, w') \<Rightarrow> (out, st, w')
     | (Inr st', w') \<Rightarrow> turns fuel maxRepeats stopped p st' w')"

definition initial :: "WhereWhatPair list \<Rightarrow> LoopState" where
  "initial workflow =
     \<lparr>workflowCopy = enumerate 0 (removeSpecialSelectors (map json_pair workflow)),
      usedActions = [], sels = [], lastAction = None, repeatCount = 0\<rparr>"

definition runLoop ::
  "nat \<Rightarrow> int \<Rightarrow> (nat \<Rightarrow> bool) \<Rightarrow> Page \<Rightarrow> WhereWhatPair list \<Rightarrow> outcome \<times> LoopState \<times> world" where
  "runLoop fuel maxRepeats stopped p workflow =
     turns fuel maxRepeats stopped p (initial workflow) \<lparr>clock = 0, log = []\<rparr>"

text \<open>The addresses of the pairs whose bodies were executed, the latest first.\<close>

fun fired :: "event list \<Rightarrow> nat list" where
  "fired [] = []"
| "fired (Fired a # es) = a # fired es"
| "fired (e # es) = fired es"

text \<open>The length of the longest block of equal neighbours in a list.\<close>

fun longest_run :: "'a list \<Rightarrow> nat" where
  "longest_run [] = 0"
| "longest_run (x # xs) = max (Suc (length (takeWhile (\<lambda>y. y = x) xs))) (longest_run xs)"

section \<open>The pagination engine\<close>

text \<open>
  \<^verbatim>\<open>handlePagination(page, config)\<close>. The items are of any type \<open>'a\<close>; \<open>stringify\<close> is
  \<^verbatim>\<open>JSON.stringify\<close> on them. \<^verbatim>\<open>config.limit\<close> and \<^verbatim>\<open>config.pagination.selector\<close> may be
  absent.
\<close>

record config =
  limit :: "int option"
  pagination_type :: string
  pagination_selector :: "string option"

text \<open>
  The page of a list, as the engine observes it: what each awaited operation answers at
  the time it is asked (\<open>None\<close> or \<open>False\<close> when it throws). \<open>scrapeList_at\<close> is
  \<^verbatim>\<open>page.evaluate((cfg) => window.scrapeList(cfg), config)\<close>, the in-page extraction, which
  is not among the sources; \<open>signature_at\<close> gives \<^verbatim>\<open>itemCount\<close> and \<^verbatim>\<open>firstItems\<close> of
  \<^verbatim>\<open>captureContentSignature\<close>.
\<close>

record 'a ListPage =
  stringify :: "'a \<Rightarrow> string"
  scrapeList_at :: "nat \<Rightarrow> 'a list option"
  waitForSelector_at :: "nat \<Rightarrow> string \<Rightarrow> bool"
  waitForTimeout_at :: "nat \<Rightarrow> bool"
  scrollTo_at :: "nat \<Rightarrow> bool"
  scrollHeight_at :: "nat \<Rightarrow> nat option"
  scrollTop_at :: "nat \<Rightarrow> nat option"
  click_at :: "nat \<Rightarrow> bool"
  dispatchEvent_at :: "nat \<Rightarrow> bool"
  waitForNavigation_at :: "nat \<Rightarrow> bool"
  forward_at :: "nat \<Rightarrow> bool"
  page_url_at :: "nat \<Rightarrow> string"
  signature_at :: "nat \<Rightarrow> (nat \<times> string) option"

text \<open>
  What the engine does and computes in the \<^verbatim>\<open>clickLoadMore\<close> rounds, for the history of
  a run: a call of \<^verbatim>\<open>click()\<close> or of \<^verbatim>\<open>dispatchEvent('click')\<close> on the load-more button
  (with whether it resolved), the value of \<^verbatim>\<open>heightChanged\<close>, the value of
  \<^verbatim>\<open>newItemsAdded\<close>.
\<close>

datatype pevent = Click bool | Dispatch bool | Height bool | Items bool

record 'a pstate =
  allResults :: "'a list"
  previousHeight :: nat
  scrapedItems :: "string list"
  visitedUrls :: "string list"
  availableSelectors :: "string list"
  now :: nat
  history :: "pevent list"

definition advance :: "'a pstate \<Rightarrow> 'a pstate" where
  "advance st = st\<lparr>now := Suc (now st)\<rparr>"

definition noted :: "pevent \<Rightarrow> 'a pstate \<Rightarrow> 'a pstate" where
  "noted e st = st\<lparr>history := e # history st\<rparr>"

text \<open>
  The filter of \<^verbatim>\<open>scrapeCurrentPage\<close>: an item whose key is in \<^verbatim>\<open>scrapedItems\<close> is
  dropped, the key of an item kept is added to the set.
\<close>

fun filter_new :: "('a \<Rightarrow> string) \<Rightarrow> string list \<Rightarrow> 'a list \<Rightarrow> 'a list \<times> string list" where
  "filter_new key seen [] = ([], seen)"
| "filter_new key seen (item # items) =
    (if key item \<in> set seen then filter_new key seen items
     else (case filter_new key (seen @ [key item]) items of
             (newResults, seen') \<Rightarrow> (item # newResults, seen')))"

definition scrapeCurrentPage :: "'a ListPage \<Rightarrow> 'a pstate \<Rightarrow> (error + unit) \<times> 'a pstate" where
  "scrapeCurrentPage page st =
     (case scrapeList_at page (now st) of
        None \<Rightarrow> (Inl DriverError, advance st)
      | Some results \<Rightarrow>
          (case filter_new (stringify page) (scrapedItems st) results of
             (newResults, seen') \<Rightarrow>
               (Inr (), advance (st\<lparr>allResults := allResults st @ newResults, scrapedItems := seen'\<rparr>))))"

text \<open>\<^verbatim>\<open>array.slice(0, l)\<close>: a negative \<open>l\<close> counts from the end.\<close>

definition slice0 :: "'a list \<Rightarrow> int \<Rightarrow> 'a list" where
  "slice0 xs l = (if 0 \<le> l then take (nat l) xs else take (length xs - nat (- l)) xs)"

definition checkLimit :: "config \<Rightarrow> 'a pstate \<Rightarrow> bool \<times> 'a pstate" where
  "checkLimit cfg st =
     (case limit cfg of
        None \<Rightarrow> (False, st)
      | Some l \<Rightarrow>
          if l \<noteq> 0 \<and> l \<le> int (length (allResults st))
          then (True, st\<lparr>allResults := slice0 (allResults st) l\<rparr>)
          else (False, st))"

definition MAX_RETRIES :: nat where
  "MAX_RETRIES = 3"

text \<open>
  \<^verbatim>\<open>findWorkingButton\<close>. \<open>attempt_selector\<close> is the loop \<^verbatim>\<open>while (retryCount < MAX_RETRIES
  && !selectorSuccess)\<close> on one selector, with \<open>left = MAX_RETRIES - retryCount\<close>: \<open>Inr True\<close>
  when the selector was found, \<open>Inr False\<close> when its attempts are used up, an error when the
  pause between two attempts throws. (\<^verbatim>\<open>waitForSelector\<close> with \<^verbatim>\<open>state: 'attached'\<close>
  resolves to a handle or throws.)
\<close>

fun attempt_selector ::
  "'a ListPage \<Rightarrow> string \<Rightarrow> nat \<Rightarrow> 'a pstate \<Rightarrow> (error + bool) \<times> 'a pstate" where
  "attempt_selector page selector 0 st = (Inr False, st)"
| "attempt_selector page selector (Suc left) st =
    (if waitForSelector_at page (now st) selector then (Inr True, advance st)
     else if left = 0 then (Inr False, advance st)
     else if waitForTimeout_at page (Suc (now st)) then attempt_selector page selector left (advance (advance st))
     else (Inl DriverError, advance (advance st)))"

fun findWorkingButton ::
  "'a ListPage \<Rightarrow> string list \<Rightarrow> string list \<Rightarrow> 'a pstate
     \<Rightarrow> (error + string option \<times> string list) \<times> 'a pstate" where
  "findWorkingButton page [] updatedSelectors st = (Inr (None, updatedSelectors), st)"
| "findWorkingButton page (selector # rest) updatedSelectors st =
    (case attempt_selector page selector MAX_RETRIES st of
       (Inl e, st') \<Rightarrow> (Inl e, st')
     | (Inr True, st') \<Rightarrow> (Inr (Some selector, updatedSelectors), st')
     | (Inr False, st') \<Rightarrow>
         findWorkingButton page rest (filter (\<lambda>s. s \<noteq> selector) updatedSelectors) st')"

text \<open>
  The click loop of \<^verbatim>\<open>clickLoadMore\<close>, \<^verbatim>\<open>while (retryCount < MAX_RETRIES &&
  !clickSuccess)\<close>, with \<open>left = MAX_RETRIES - retryCount\<close>; the result is \<^verbatim>\<open>clickSuccess\<close>.
  After a click that resolved, the pause of one second is inside the \<^verbatim>\<open>try\<close>: if it
  throws, the \<^verbatim>\<open>catch\<close> counts a retry and pauses again (when retries are left), and the
  loop ends with \<^verbatim>\<open>clickSuccess\<close> true.
\<close>

definition after_click :: "'a ListPage \<Rightarrow> nat \<Rightarrow> 'a pstate \<Rightarrow> (error + bool) \<times> 'a pstate" where
  "after_click page left st =
     (if waitForTimeout_at page (now st) then (Inr True, advance st)
      else if left = 0 then (Inr True, advance st)
      else if waitForTimeout_at page (Suc (now st)) then (Inr True, advance (advance st))
      else (Inl DriverError, advance (advance st)))"

fun click_attempts :: "'a ListPage \<Rightarrow> nat \<Rightarrow> 'a pstate \<Rightarrow> (error + bool) \<times> 'a pstate" where
  "click_attempts page 0 st = (Inr False, st)"
| "click_attempts page (Suc left) st =
    (if click_at page (now st) then after_click page left (advance (noted (Click True) st))
     else if dispatchEvent_at page (Suc (now st))
       then after_click page left (advance (advance (noted (Dispatch True) (noted (Click False) st))))
     else
       (let st' = advance (advance (noted (Dispatch False) (noted (Click False) st))) in
        if left = 0 then (Inr False, st')
        else if waitForTimeout_at page (now st') then click_attempts page left (advance st')
        else (Inl DriverError, advance st')))"

text \<open>
  Every \<^verbatim>\<open>return\<close> of \<^verbatim>\<open>handlePagination\<close> inside its \<^verbatim>\<open>try\<close> returns \<^verbatim>\<open>allResults\<close>,
  and so does the \<^verbatim>\<open>catch\<close> around the whole of it, which an error thrown anywhere
  reaches. The functions below answer \<open>(True, st)\<close> when the function has returned, the list
  returned being \<open>allResults st\<close>, and \<open>(False, st)\<close> when it goes on from the state \<open>st\<close>.

  \<open>loadMore_round\<close> is one round of the inner \<^verbatim>\<open>while (true)\<close> of \<^verbatim>\<open>clickLoadMore\<close>,
  which answers also the values of \<^verbatim>\<open>previousResultCount\<close> and \<^verbatim>\<open>noNewItemsCounter\<close>
  for the next round; \<open>loadMore_rounds\<close> is the loop, for at most \<open>fuel\<close> rounds (\<open>False\<close>:
  it has not returned by then). The two pauses and the scroll of a round are one awaited
  step each.
\<close>

definition settle :: "'a ListPage \<Rightarrow> 'a pstate \<Rightarrow> (error + nat) \<times> 'a pstate" where
  "settle page st =
     (if \<not> waitForTimeout_at page (now st) then (Inl DriverError, advance st)
      else if \<not> scrollTo_at page (Suc (now st)) then (Inl DriverError, advance (advance st))
      else if \<not> waitForTimeout_at page (Suc (Suc (now st))) then (Inl DriverError, advance (advance (advance st)))
      else case scrollHeight_at page (Suc (Suc (Suc (now st)))) of
             None \<Rightarrow> (Inl DriverError, advance (advance (advance (advance st))))
           | Some currentHeight \<Rightarrow> (Inr currentHeight, advance (advance (advance (advance st)))))"

definition MAX_NO_NEW_ITEMS :: nat where
  "MAX_NO_NEW_ITEMS = 2"

definition loadMore_round ::
  "'a ListPage \<Rightarrow> config \<Rightarrow> nat \<Rightarrow> nat \<Rightarrow> 'a pstate \<Rightarrow> (bool \<times> nat \<times> nat) \<times> 'a pstate" where
  "loadMore_round page cfg previousResultCount noNewItemsCounter st =
    (case findWorkingButton page (availableSelectors st) (availableSelectors st) st of
       (Inl e, st1) \<Rightarrow> ((True, previousResultCount, noNewItemsCounter), st1)
     | (Inr (workingSelector, updatedSelectors), st1) \<Rightarrow>
         (let st2 = st1\<lparr>availableSelectors := updatedSelectors\<rparr> in
          if workingSelector = None \<or> workingSelector = Some []
            then ((True, previousResultCount, noNewItemsCounter), st2)
          else
            (case click_attempts page MAX_RETRIES st2 of
               (Inl e, st3) \<Rightarrow> ((True, previousResultCount, noNewItemsCounter), st3)
             | (Inr False, st3) \<Rightarrow> ((True, previousResultCount, noNewItemsCounter), st3)
             | (Inr True, st3) \<Rightarrow>
                 (case settle page st3 of
                    (Inl e, st4) \<Rightarrow> ((True, previousResultCount, noNewItemsCounter), st4)
                  | (Inr currentHeight, st4) \<Rightarrow>
                      (let heightChanged = (currentHeight \<noteq> previousHeight st4);
                           st5 = noted (Height heightChanged) (st4\<lparr>previousHeight := currentHeight\<rparr>)
                       in case scrapeCurrentPage page st5 of
                            (Inl e, st6) \<Rightarrow> ((True, previousResultCount, noNewItemsCounter), st6)
                          | (Inr u, st6) \<Rightarrow>
                              (let currentResultCount = length (allResults st6);
                                   newItemsAdded = (previousResultCount < currentResultCount);
                                   st7 = noted (Items newItemsAdded) st6;
                                   counter = (if newItemsAdded then 0 else Suc noNewItemsCounter);
                                   previous = (if newItemsAdded then currentResultCount else previousResultCount)
                               in if \<not> newItemsAdded \<and> MAX_NO_NEW_ITEMS \<le> counter
                                    then ((True, previous, counter), st7)
                                  else
                                    (case checkLimit cfg st7 of
                                       (True, st8) \<Rightarrow> ((True, previous, counter), st8)
                                     | (False, st8) \<Rightarrow> ((\<not> heightChanged, previous, counter), st8))))))))"

fun loadMore_rounds ::
  "nat \<Rightarrow> 'a ListPage \<Rightarrow> config \<Rightarrow> nat \<Rightarrow> nat \<Rightarrow> 'a pstate \<Rightarrow> bool \<times> 'a pstate" where
  "loadMore_rounds 0 page cfg previousResultCount noNewItemsCounter st = (False, st)"
| "loadMore_rounds (Suc fuel) page cfg previousResultCount noNewItemsCounter st =
    (case loadMore_round page cfg previousResultCount noNewItemsCounter st of
       ((True, previous, counter), st') \<Rightarrow> (True, st')
     | ((False, previous, counter), st') \<Rightarrow> loadMore_rounds fuel page cfg previous counter st')"

text \<open>
  The click on the next-page button of \<^verbatim>\<open>clickNext\<close>: the loop \<^verbatim>\<open>while (retryCount <
  MAX_RETRIES && !paginationSuccess)\<close>, with \<open>left = MAX_RETRIES - retryCount\<close>; the result is
  \<^verbatim>\<open>paginationSuccess\<close>. \<^verbatim>\<open>Promise.all\<close> of the navigation and the click resolves when
  both do. An error inside an attempt is caught by the attempt; only the pause between two
  attempts can throw out of the loop.
\<close>

definition changed_after_click ::
  "'a ListPage \<Rightarrow> string \<Rightarrow> nat \<times> string \<Rightarrow> 'a pstate \<Rightarrow> bool \<times> 'a pstate" where
  "changed_after_click page currentUrl beforeSignature st =
     (case signature_at page (now st) of
        None \<Rightarrow> (False, advance st)
      | Some afterSignature \<Rightarrow>
          if page_url_at page (now st) \<noteq> currentUrl
            then (True, advance (st\<lparr>visitedUrls := List.insert (page_url_at page (now st)) (visitedUrls st)\<rparr>))
          else if snd afterSignature \<noteq> snd beforeSignature then (True, advance st)
          else if fst afterSignature \<noteq> fst beforeSignature then (True, advance st)
          else (False, advance st))"

definition plain_click :: "'a ListPage \<Rightarrow> 'a pstate \<Rightarrow> bool \<times> 'a pstate" where
  "plain_click page st =
     (if click_at page (now st) \<and> waitForTimeout_at page (Suc (now st)) then (True, advance (advance st))
      else if dispatchEvent_at page (Suc (Suc (now st))) \<and> waitForTimeout_at page (Suc (Suc (Suc (now st))))
        then (True, advance (advance (advance (advance st))))
      else (False, advance (advance (advance (advance st)))))"

definition next_attempt ::
  "'a ListPage \<Rightarrow> string \<Rightarrow> nat \<times> string \<Rightarrow> 'a pstate \<Rightarrow> bool \<times> 'a pstate" where
  "next_attempt page currentUrl beforeSignature st =
     (if waitForNavigation_at page (now st) \<and> click_at page (now st) then (True, advance st)
      else if waitForNavigation_at page (Suc (now st)) \<and> dispatchEvent_at page (Suc (now st))
        then (True, advance (advance st))
      else
        (case plain_click page (advance (advance st)) of
           (True, st') \<Rightarrow> changed_after_click page currentUrl beforeSignature st'
         | (False, st') \<Rightarrow> (False, st')))"

fun next_attempts ::
  "'a ListPage \<Rightarrow> string \<Rightarrow> nat \<times> string \<Rightarrow> nat \<Rightarrow> 'a pstate \<Rightarrow> (error + bool) \<times> 'a pstate" where
  "next_attempts page currentUrl beforeSignature 0 st = (Inr False, st)"
| "next_attempts page currentUrl beforeSignature (Suc left) st =
    (case next_attempt page currentUrl beforeSignature st of
       (True, st') \<Rightarrow> (Inr True, st')
     | (False, st') \<Rightarrow>
         if left = 0 then (Inr False, st')
         else if waitForTimeout_at page (now st') then
           next_attempts page currentUrl beforeSignature left (advance st')
         else (Inl DriverError, advance st'))"

text \<open>
  One turn of the outer \<^verbatim>\<open>while (true)\<close> for \<^verbatim>\<open>clickNext\<close>, up to the \<^verbatim>\<open>break\<close> out of
  the \<^verbatim>\<open>switch\<close>. \<^verbatim>\<open>retryOperation\<close> is given an operation that catches its own errors,
  so it returns what the operation returns.
\<close>

definition clickNext_turn :: "'a ListPage \<Rightarrow> config \<Rightarrow> 'a pstate \<Rightarrow> bool \<times> 'a pstate" where
  "clickNext_turn page cfg st0 =
     (let currentUrl = page_url_at page (now st0);
          st = st0\<lparr>visitedUrls := List.insert currentUrl (visitedUrls st0)\<rparr>
      in case scrapeCurrentPage page st of
           (Inl e, st1) \<Rightarrow> (True, st1)
         | (Inr u, st1) \<Rightarrow>
             (case checkLimit cfg st1 of
                (True, st2) \<Rightarrow> (True, st2)
              | (False, st2) \<Rightarrow>
                  (case findWorkingButton page (availableSelectors st2) (availableSelectors st2) st2 of
                     (Inl e, st3) \<Rightarrow> (True, st3)
                   | (Inr (workingSelector, updatedSelectors), st3) \<Rightarrow>
                       (let st4 = st3\<lparr>availableSelectors := updatedSelectors\<rparr> in
                        if workingSelector = None \<or> workingSelector = Some [] then
                          (if forward_at page (now st4)
                              \<and> page_url_at page (Suc (now st4)) \<notin> set (visitedUrls st4)
                           then (False, advance st4) else (True, advance st4))
                        else
                          (case signature_at page (now st4) of
                             None \<Rightarrow> (True, advance st4)
                           | Some beforeSignature \<Rightarrow>
                               (case next_attempts page currentUrl beforeSignature MAX_RETRIES (advance st4) of
                                  (Inl e, st5) \<Rightarrow> (True, st5)
                                | (Inr False, st5) \<Rightarrow> (True, st5)
                                | (Inr True, st5) \<Rightarrow> (False, st5)))))))"

text \<open>
  The turns of the scroll strategies: the page is scrolled, and when the height read is the
  one read before (\<^verbatim>\<open>scrollDown\<close>) or the top is reached (\<^verbatim>\<open>scrollUp\<close>), the list is
  extracted once more and added to \<^verbatim>\<open>allResults\<close> as it is.
\<close>

definition scroll_turn :: "'a ListPage \<Rightarrow> bool \<Rightarrow> 'a pstate \<Rightarrow> bool \<times> 'a pstate" where
  "scroll_turn page down st =
     (if \<not> scrollTo_at page (now st) then (True, advance st)
      else if \<not> waitForTimeout_at page (Suc (now st)) then (True, advance (advance st))
      else case (if down then scrollHeight_at page (Suc (Suc (now st)))
                 else scrollTop_at page (Suc (Suc (now st)))) of
             None \<Rightarrow> (True, advance (advance (advance st)))
           | Some currentHeight \<Rightarrow>
               if (if down then currentHeight = previousHeight st else currentHeight = 0) then
                 (case scrapeList_at page (Suc (Suc (Suc (now st)))) of
                    None \<Rightarrow> (True, advance (advance (advance (advance st))))
                  | Some finalResults \<Rightarrow>
                      (True, (advance (advance (advance (advance st))))
                                \<lparr>allResults := allResults st @ finalResults\<rparr>))
               else (False, (advance (advance (advance st)))\<lparr>previousHeight := currentHeight\<rparr>))"

text \<open>
  The outer \<^verbatim>\<open>while (true)\<close> with its \<^verbatim>\<open>switch\<close>, for at most \<open>fuel\<close> turns. After the
  \<^verbatim>\<open>break\<close> of a case, \<^verbatim>\<open>if (checkLimit()) break\<close> leaves the loop for the final
  \<^verbatim>\<open>return allResults\<close>.
\<close>

fun paginate :: "nat \<Rightarrow> 'a ListPage \<Rightarrow> config \<Rightarrow> 'a pstate \<Rightarrow> bool \<times> 'a pstate" where
  "paginate 0 page cfg st = (False, st)"
| "paginate (Suc fuel) page cfg st =
    (if pagination_type cfg = ''scrollDown'' \<or> pagination_type cfg = ''scrollUp'' then
       (case scroll_turn page (pagination_type cfg = ''scrollDown'') st of
          (True, st1) \<Rightarrow> (True, st1)
        | (False, st1) \<Rightarrow>
            (case checkLimit cfg st1 of
               (True, st2) \<Rightarrow> (True, st2)
             | (False, st2) \<Rightarrow> paginate fuel page cfg st2))
     else if pagination_type cfg = ''clickNext'' then
       (case clickNext_turn page cfg st of
          (True, st1) \<Rightarrow> (True, st1)
        | (False, st1) \<Rightarrow>
            (case checkLimit cfg st1 of
               (True, st2) \<Rightarrow> (True, st2)
             | (False, st2) \<Rightarrow> paginate fuel page cfg st2))
     else if pagination_type cfg = ''clickLoadMore'' then
       (case scrapeCurrentPage page st of
          (Inl e, st1) \<Rightarrow> (True, st1)
        | (Inr u, st1) \<Rightarrow>
            (case checkLimit cfg st1 of
               (True, st2) \<Rightarrow> (True, st2)
             | (False, st2) \<Rightarrow> loadMore_rounds fuel page cfg (length (allResults st2)) 0 st2))
     else
       (case scrapeCurrentPage page st of
          (Inl e, st1) \<Rightarrow> (True, st1)
        | (Inr u, st1) \<Rightarrow> (True, st1)))"

text \<open>\<^verbatim>\<open>config.pagination.selector.split(',')\<close>.\<close>

fun split_comma :: "string \<Rightarrow> string list" where
  "split_comma [] = [[]]"
| "split_comma (c # cs) =
    (if c = CHR '','' then [] # split_comma cs
     else (case split_comma cs of [] \<Rightarrow> [[c]] | x # xs \<Rightarrow> (c # x) # xs))"

definition start :: "string list \<Rightarrow> 'a pstate" where
  "start selectors0 = \<lparr>allResults = [], previousHeight = 0, scrapedItems = [], visitedUrls = [],
                       availableSelectors = selectors0, now = 0, history = []\<rparr>"

text \<open>
  \<^verbatim>\<open>handlePagination\<close>: the selector is split before the \<^verbatim>\<open>try\<close>, so that an absent
  selector throws out of the function. \<open>returned\<close> is the list the function returns, which
  \<^verbatim>\<open>scrapeList\<close> passes to the serializable callback; \<open>None\<close> when the loops have not
  returned within \<open>fuel\<close> turns.
\<close>

definition handlePagination :: "nat \<Rightarrow> 'a ListPage \<Rightarrow> config \<Rightarrow> error + bool \<times> 'a pstate" where
  "handlePagination fuel page cfg =
     (case pagination_selector cfg of
        None \<Rightarrow> Inl TypeError
      | Some selector \<Rightarrow> Inr (paginate fuel page cfg (start (split_comma selector))))"

fun returned :: "error + bool \<times> 'a pstate \<Rightarrow> 'a list option" where
  "returned (Inl e) = None"
| "returned (Inr (True, st)) = Some (allResults st)"
| "returned (Inr (False, st)) = None"

text \<open>
  On the history of the \<^verbatim>\<open>clickLoadMore\<close> rounds, the latest event first: \<open>stopping\<close>
  holds when the latest event is one of the two observations after which the loop is to
  stop, the height found unchanged, or no new items found for the second round in a row;
  \<open>clicks\<close> are the calls made on the button.
\<close>

fun no_new_before :: "pevent list \<Rightarrow> bool" where
  "no_new_before [] = False"
| "no_new_before (Items added # es) = (\<not> added)"
| "no_new_before (e # es) = no_new_before es"

fun stopping :: "pevent list \<Rightarrow> bool" where
  "stopping (Height changed # es) = (\<not> changed)"
| "stopping (Items added # es) = (\<not> added \<and> no_new_before es)"
| "stopping es = False"

fun is_click :: "pevent \<Rightarrow> bool" where
  "is_click (Click ok) = True"
| "is_click (Dispatch ok) = True"
| "is_click e = False"

fun no_stop :: "pevent list \<Rightarrow> bool" where
  "no_stop [] = True"
| "no_stop (e # es) = (\<not> stopping (e # es) \<and> no_stop es)"

section \<open>An invariant of the loop, and the pages of the examples\<close>

text \<open>
  The invariant of \<^verbatim>\<open>runLoop\<close> that relates \<^verbatim>\<open>lastAction\<close> and \<^verbatim>\<open>repeatCount\<close> to the
  bodies executed so far: no block of the same pair is longer than \<open>m + 1\<close>, and the latest
  block is the one of \<^verbatim>\<open>lastAction\<close>, of \<^verbatim>\<open>repeatCount + 1\<close> executions.
\<close>

definition run_inv :: "int \<Rightarrow> LoopState \<Rightarrow> world \<Rightarrow> bool" where
  "run_inv m st w =
     (longest_run (fired (log w)) \<le> nat m + 1
      \<and> (case lastAction st of
            None \<Rightarrow> fired (log w) = []
          | Some a \<Rightarrow>
              (case fired (log w) of
                 [] \<Rightarrow> False
               | b # rest \<Rightarrow> b = a \<and> length (takeWhile (\<lambda>y. y = a) rest) = repeatCount st)))"

text \<open>
  A page on which every call fails and no selector is attached, and a pair with the empty
  guard whose body is one \<^verbatim>\<open>goto\<close>: the body throws, so that the pair stays in the copy and
  matches again.
\<close>

definition failing_page :: Page where
  "failing_page = \<lparr>isClosed = (\<lambda>t. False), loadState_ok = (\<lambda>t. True), attached = (\<lambda>t s. False),
     url_at = (\<lambda>t. ''https://example.com/''), cookies_at = (\<lambda>t. Some []),
     member_defined = (\<lambda>path. False), succeeds = (\<lambda>t c. False)\<rparr>"

definition retry_pair :: WhereWhatPair where
  "retry_pair = \<lparr>pair_id = None, pair_where = Where [],
     what = [\<lparr>action = ''goto'', args = AArr [AStr ''https://example.com/'']\<rparr>]\<rparr>"

text \<open>A page on which every \<^verbatim>\<open>click\<close> fails and every other call succeeds.\<close>

definition click_fails :: Page where
  "click_fails = \<lparr>isClosed = (\<lambda>t. False), loadState_ok = (\<lambda>t. True), attached = (\<lambda>t s. True),
     url_at = (\<lambda>t. ''https://example.com/''), cookies_at = (\<lambda>t. Some []),
     member_defined = (\<lambda>path. path = [''mouse''] \<or> path = [''keyboard'']),
     succeeds = (\<lambda>t c. case c of Method path m actual \<Rightarrow> m \<noteq> ''click'' | Waw name params \<Rightarrow> True)\<rparr>"


text \<open>
  A page whose list holds the same item twice, on which every operation succeeds and the
  scroll height stays the same. The items are strings, which stand for their own
  serialization.
\<close>

definition dup_page :: "string ListPage" where
  "dup_page = \<lparr>stringify = (\<lambda>item. item), scrapeList_at = (\<lambda>t. Some [''A'', ''A'']),
     waitForSelector_at = (\<lambda>t s. True), waitForTimeout_at = (\<lambda>t. True), scrollTo_at = (\<lambda>t. True),
     scrollHeight_at = (\<lambda>t. Some 900), scrollTop_at = (\<lambda>t. Some 0),
     click_at = (\<lambda>t. True), dispatchEvent_at = (\<lambda>t. True), waitForNavigation_at = (\<lambda>t. True),
     forward_at = (\<lambda>t. True), page_url_at = (\<lambda>t. ''https://example.com/list''),
     signature_at = (\<lambda>t. Some (2, ''A|A''))\<rparr>"

section \<open>Properties of the matcher\<close>

lemma matching_below_sound:
  "matching_below W S H n = Inr (Some i) \<Longrightarrow>
     i < n \<and> applicable (pair_where (W ! i)) S H = Inr True
     \<and> (\<forall>j. i < j \<and> j < n \<longrightarrow> applicable (pair_where (W ! j)) S H = Inr False)"
proof (induction n)
  case 0
  then show ?case by simp
next
  case (Suc n)
  show ?case
  proof (cases "applicable (pair_where (W ! n)) S H")
    case (Inl err)
    with Suc.prems show ?thesis by simp
  next
    case (Inr b)
    show ?thesis
    proof (cases b)
      case True
      with Inr Suc.prems have "i = n" by simp
      with Inr True show ?thesis by auto
    next
      case False
      with Inr Suc.prems have "matching_below W S H n = Inr (Some i)" by simp
      from Suc.IH [OF this] Inr False show ?thesis
        by (auto simp: less_Suc_eq)
    qed
  qed
qed

text \<open>
  When no guard throws, the scan returns: an index, or \<^verbatim>\<open>undefined\<close> when no guard matches.
\<close>

lemma matching_below_returns:
  "\<forall>j < n. \<not> isl (applicable (pair_where (W ! j)) S H) \<Longrightarrow> \<not> isl (matching_below W S H n)"
  by (induction n) (auto split: sum.splits bool.splits)

text \<open>
  Claim C1. The matcher scans the workflow copy from the last pair to the first
  (\<open>matching_below\<close> counts the index down from \<open>length W\<close>). If it returns the index \<open>i\<close>,
  the guard of pair \<open>i\<close> evaluates to true on the state \<open>S\<close> with the history \<open>H\<close>, and the
  guard of every pair after \<open>i\<close> evaluates to false.
\<close>

theorem getMatchingActionId_last_match:
  assumes "getMatchingActionId W S H = Inr (Some i)"
  shows "i < length W \<and> applicable (pair_where (W ! i)) S H = Inr True
     \<and> (\<forall>j. i < j \<and> j < length W \<longrightarrow> applicable (pair_where (W ! j)) S H = Inr False)"
  using assms matching_below_sound [of W S H "length W" i]
  by (simp add: getMatchingActionId_def)

lemma get_prop_selectors: "get_prop (context_obj S) ''selectors'' = Some (Arr (selectors S))"
  by (simp add: context_obj_def split: option.split)

lemma list_ex_inter: "list_ex (\<lambda>x. x \<in> set P) G = (set G \<inter> set P \<noteq> {})"
  by (auto simp: list_ex_iff)

theorem getMatchingActionId_last_match_witness:
  "getMatchingActionId
      [\<lparr>pair_id = Some ''a'', pair_where = Where [], what = []\<rparr>,
       \<lparr>pair_id = Some ''b'', pair_where = Where [Base ''selectors'' (Arr [''#next''])], what = []\<rparr>,
       \<lparr>pair_id = None, pair_where = Where [After (MStr ''b'')], what = []\<rparr>]
      \<lparr>url = Some (Str ''https://example.com''), cookies = [], selectors = [''#next'']\<rparr> [''a'']
     = Inr (Some 1)
   \<and> applicable (Where [Base ''selectors'' (Arr [''#next''])])
        \<lparr>url = Some (Str ''https://example.com''), cookies = [], selectors = [''#next'']\<rparr> [''a'']
       = Inr True
   \<and> applicable (Where [After (MStr ''b'')])
        \<lparr>url = Some (Str ''https://example.com''), cookies = [], selectors = [''#next'']\<rparr> [''a'']
       = Inr False"
proof -
  let ?W = "[\<lparr>pair_id = Some ''a'', pair_where = Where [], what = []\<rparr>,
       \<lparr>pair_id = Some ''b'', pair_where = Where [Base ''selectors'' (Arr [''#next''])], what = []\<rparr>,
       \<lparr>pair_id = None, pair_where = Where [After (MStr ''b'')], what = []\<rparr>]"
  let ?S = "\<lparr>url = Some (Str ''https://example.com''), cookies = [], selectors = [''#next'']\<rparr>"
  have m: "getMatchingActionId ?W ?S [''a''] = Inr (Some 1)"
    by (simp add: getMatchingActionId_def numeral_3_eq_3 get_prop_selectors)
  from getMatchingActionId_last_match [OF m]
  have "applicable (pair_where (?W ! 1)) ?S [''a''] = Inr True"
    and "applicable (pair_where (?W ! 2)) ?S [''a''] = Inr False"
    by auto
  with m show ?thesis by simp
qed

text \<open>
  Claim C5, as stated: the \<^verbatim>\<open>selectors\<close> clause matches if and only if the guard's list and
  the state's list have an element in common. It fails where both lists are empty: the
  code's first test answers \<^verbatim>\<open>true\<close> there, and no element is common.
\<close>

theorem selectors_clause_counterexample:
  "inclusive [(''selectors'', Arr [])] (context_obj \<lparr>url = None, cookies = [], selectors = []\<rparr>)
   \<and> set ([] :: string list) \<inter> set (selectors \<lparr>url = None, cookies = [], selectors = []\<rparr>) = {}"
  by (simp add: get_prop_selectors)

text \<open>
  Claim C5, amended: the \<^verbatim>\<open>selectors\<close> clause with the list \<open>G\<close> matches a state whose
  attached selectors are \<open>P\<close> if and only if \<open>G\<close> and \<open>P\<close> are both empty or have an element
  in common.
\<close>

theorem selectors_clause:
  "inclusive [(''selectors'', Arr G)] (context_obj S)
     = ((G = [] \<and> selectors S = []) \<or> set G \<inter> set (selectors S) \<noteq> {})"
  by (auto simp: get_prop_selectors list_ex_inter)

theorem selectors_clause_witness:
  "inclusive [(''selectors'', Arr [''#a'', ''#b''])]
     (context_obj \<lparr>url = None, cookies = [], selectors = [''#c'', ''#b'']\<rparr>)"
  using selectors_clause [of "[''#a'', ''#b'']" "\<lparr>url = None, cookies = [], selectors = [''#c'', ''#b'']\<rparr>"]
  by simp

text \<open>
  The meta operators on a string: \<^verbatim>\<open>find\<close> returns the element found, and the code
  takes its truthiness, so that the empty string found counts as nothing found.
\<close>

lemma find_used_MStr: "find_used (MStr v) H = Inr (if v \<in> set H then Some v else None)"
  by (induction H) (auto split: bool.splits)

lemma meta_string_clause:
  "applicable_entry (Before (MStr v)) S H = Inr (v \<notin> set H \<or> v = [])"
  "applicable_entry (After (MStr v)) S H = Inr (v \<in> set H \<and> v \<noteq> [])"
  by (simp_all add: find_used_MStr)

lemma meta_before_not_after:
  "applicable_entry (Before v) S H = Inr b \<longleftrightarrow> applicable_entry (After v) S H = Inr (\<not> b)"
  by (auto split: sum.splits)

text \<open>
  Claim C6 says that \<^verbatim>\<open>$after: v\<close> matches exactly when an element of the fired ids \<open>H\<close>
  equals \<open>v\<close>, and \<^verbatim>\<open>$before: v\<close> exactly when none does. The code at the inputs where it
  does otherwise: with \<open>login\<close> fired, \<^verbatim>\<open>$after: "login"\<close> matches at the top of a guard but
  not under \<^verbatim>\<open>$and\<close> (nor \<^verbatim>\<open>$before\<close> under \<^verbatim>\<open>$not\<close>), where the history read is the
  default \<^verbatim>\<open>[]\<close>; and with the empty id fired, \<^verbatim>\<open>$before: ""\<close> matches and
  \<^verbatim>\<open>$after: ""\<close> does not.
\<close>

theorem meta_clause_at_failing_inputs:
  "applicable (Where [After (MStr ''login'')]) S [''login''] = Inr True
   \<and> applicable (Where [Op_and (WhereArray [Where [After (MStr ''login'')]])]) S [''login''] = Inr False
   \<and> applicable (Where [Op_not (Where [Before (MStr ''login'')])]) S [''login''] = Inr False
   \<and> applicable (Where [Before (MStr '''')]) S [''''] = Inr True
   \<and> applicable (Where [After (MStr '''')]) S [''''] = Inr False"
  by simp

lemma every_r_True: "every_r rs = Inr True \<longleftrightarrow> (\<forall>r \<in> set rs. r = Inr True)"
  by (induction rs) (auto split: sum.splits bool.splits)

lemma some_r_no_throw:
  "\<forall>r \<in> set rs. \<not> isl r \<Longrightarrow> some_r rs = Inr (Inr True \<in> set rs)"
  by (induction rs) (auto split: sum.splits bool.splits)

lemma every_r_returns:
  "\<forall>r \<in> set rs. \<not> isl r \<Longrightarrow> \<not> isl (every_r rs)"
  by (induction rs) (auto split: sum.splits bool.splits)

lemma some_r_returns:
  "\<forall>r \<in> set rs. \<not> isl r \<Longrightarrow> \<not> isl (some_r rs)"
  by (simp add: some_r_no_throw)

text \<open>With the empty history no guard throws: \<^verbatim>\<open>find\<close> never calls \<^verbatim>\<open>testRegexString\<close>.\<close>

lemma no_throw_empty_history:
  "\<not> isl (applicable w S [])"
  "\<not> isl (applicable_entry c S [])"
  "\<forall>r \<in> set (operand_results opd S). \<not> isl r"
proof (induction w and c and opd)
  case (Where es)
  then show ?case by (auto intro!: every_r_returns)
next
  case (Op_and x)
  then show ?case by (auto intro!: every_r_returns)
next
  case (Op_or x)
  then show ?case by (auto intro!: some_r_returns)
next
  case (Op_not w)
  then show ?case by (auto split: sum.splits)
qed (auto split: sum.splits)

text \<open>
  An operand that is not an array is read as one-entry objects: on such an object
  \<^verbatim>\<open>applicable\<close> is the callback on its entry.
\<close>

lemma applicable_single: "applicable (Where [a]) S H = applicable_entry a S H"
  by (cases "applicable_entry a S H") (auto split: bool.splits)

text \<open>
  A guard matches when each of its entries does; a \<^verbatim>\<open>$or\<close> over children that do not throw
  matches when one of them does; a \<^verbatim>\<open>$not\<close> matches when its guard, which does not throw,
  does not.
\<close>

lemma applicable_split:
  "applicable (Where (pre @ e # post)) S H = Inr True
     \<longleftrightarrow> (\<forall>x \<in> set pre. applicable_entry x S H = Inr True)
         \<and> applicable_entry e S H = Inr True
         \<and> (\<forall>x \<in> set post. applicable_entry x S H = Inr True)"
  by (auto simp: every_r_True)

lemma some_r_operand:
  "some_r (operand_results opd S) = Inr True \<longleftrightarrow> Inr True \<in> set (operand_results opd S)"
  using no_throw_empty_history(3) [of opd S] by (simp add: some_r_no_throw)

lemma not_entry:
  "applicable_entry (Op_not w) S H = Inr True \<longleftrightarrow> applicable w S [] \<noteq> Inr True"
  using no_throw_empty_history(1) [of w S]
  by (cases "applicable w S []") auto

text \<open>
  The direction in which one added child moves the answer, by induction on the place of the
  node: towards \<^verbatim>\<open>false\<close> for a \<^verbatim>\<open>$and\<close> node below an even number of \<^verbatim>\<open>$not\<close> and for a
  \<^verbatim>\<open>$or\<close> node below an odd number, towards \<^verbatim>\<open>true\<close> otherwise.
\<close>

lemma adds_direction:
  "adds_w k n w w' \<Longrightarrow>
     (if (k = And_node) = even n then applicable w' S H = Inr True \<longrightarrow> applicable w S H = Inr True
      else applicable w S H = Inr True \<longrightarrow> applicable w' S H = Inr True)"
  "adds_c k n e e' \<Longrightarrow>
     (if (k = And_node) = even n
      then applicable_entry e' S H = Inr True \<longrightarrow> applicable_entry e S H = Inr True
      else applicable_entry e S H = Inr True \<longrightarrow> applicable_entry e' S H = Inr True)"
  "adds_o k n opd opd' \<Longrightarrow>
     (if (k = And_node) = even n
      then (every_r (operand_results opd' S) = Inr True \<longrightarrow> every_r (operand_results opd S) = Inr True)
         \<and> (some_r (operand_results opd' S) = Inr True \<longrightarrow> some_r (operand_results opd S) = Inr True)
      else (every_r (operand_results opd S) = Inr True \<longrightarrow> every_r (operand_results opd' S) = Inr True)
         \<and> (some_r (operand_results opd S) = Inr True \<longrightarrow> some_r (operand_results opd' S) = Inr True))"
proof (induction arbitrary: H and H and rule: adds_w_adds_c_adds_o.inducts)
  case (in_guard k n e e' pre post)
  then show ?case unfolding applicable_split by (simp split: if_splits)
next
  case (and_array xs ys c)
  show ?case by (simp add: every_r_True)
next
  case (and_object as bs a)
  show ?case by (simp add: every_r_True)
next
  case (or_array xs ys c)
  show ?case unfolding applicable_entry.simps some_r_operand by simp
next
  case (or_object as bs a)
  show ?case unfolding applicable_entry.simps some_r_operand by simp
next
  case (below_and k n opd opd')
  then show ?case by (simp split: if_splits)
next
  case (below_or k n opd opd')
  then show ?case by (simp split: if_splits)
next
  case (below_not k n w w')
  from below_not.IH [of "[]"] show ?case
    unfolding not_entry by (auto split: if_splits)
next
  case (in_array k n w w' xs ys)
  from in_array.IH [of "[]"] show ?case
    unfolding some_r_operand by (auto simp: every_r_True split: if_splits)
next
  case (in_object k n e e' as bs)
  from in_object.IH [of "[]"] show ?case
    unfolding some_r_operand by (auto simp: every_r_True split: if_splits)
qed


text \<open>
  Claim C7, as stated, for every guard and every node of it. Below a \<^verbatim>\<open>$not\<close> it does not hold:
  on a page with no selector attached, \<^verbatim>\<open>{$not: {$and: [{}]}}\<close> does not match and, with
  the child \<^verbatim>\<open>{selectors: ['#x']}\<close> added to the \<^verbatim>\<open>$and\<close> node, the extended guard matches;
  \<^verbatim>\<open>{$not: {$or: [{selectors: ['#x']}]}}\<close> matches and, with the child \<^verbatim>\<open>{}\<close> added to the
  \<^verbatim>\<open>$or\<close> node, the extended guard does not.
\<close>

theorem applicable_monotone_counterexample:
  "adds_w And_node 1
       (Where [Op_not (Where [Op_and (WhereArray [Where []])])])
       (Where [Op_not (Where [Op_and (WhereArray [Where [], Where [Base ''selectors'' (Arr [''#x''])]])])])
   \<and> applicable (Where [Op_not (Where [Op_and
          (WhereArray [Where [], Where [Base ''selectors'' (Arr [''#x''])]])])])
        \<lparr>url = None, cookies = [], selectors = []\<rparr> [] = Inr True
   \<and> applicable (Where [Op_not (Where [Op_and (WhereArray [Where []])])])
        \<lparr>url = None, cookies = [], selectors = []\<rparr> [] = Inr False
   \<and> adds_w Or_node 1
       (Where [Op_not (Where [Op_or (WhereArray [Where [Base ''selectors'' (Arr [''#x''])]])])])
       (Where [Op_not (Where [Op_or (WhereArray [Where [Base ''selectors'' (Arr [''#x''])], Where []])])])
   \<and> applicable (Where [Op_not (Where [Op_or
          (WhereArray [Where [Base ''selectors'' (Arr [''#x''])]])])])
        \<lparr>url = None, cookies = [], selectors = []\<rparr> [] = Inr True
   \<and> applicable (Where [Op_not (Where [Op_or
          (WhereArray [Where [Base ''selectors'' (Arr [''#x''])], Where []])])])
        \<lparr>url = None, cookies = [], selectors = []\<rparr> [] = Inr False"
proof -
  have a: "adds_w And_node 1
       (Where [Op_not (Where [Op_and (WhereArray [Where []])])])
       (Where [Op_not (Where [Op_and (WhereArray [Where [], Where [Base ''selectors'' (Arr [''#x''])]])])])"
    using in_guard [OF below_not [OF in_guard [OF and_array
      [of "[Where []]" "[]" "Where [Base ''selectors'' (Arr [''#x''])]"], of "[]" "[]"]], of "[]" "[]"]
    by simp
  have b: "adds_w Or_node 1
       (Where [Op_not (Where [Op_or (WhereArray [Where [Base ''selectors'' (Arr [''#x''])]])])])
       (Where [Op_not (Where [Op_or (WhereArray [Where [Base ''selectors'' (Arr [''#x''])], Where []])])])"
    using in_guard [OF below_not [OF in_guard [OF or_array
      [of "[Where [Base ''selectors'' (Arr [''#x''])]]" "[]" "Where []"], of "[]" "[]"]], of "[]" "[]"]
    by simp
  show ?thesis using a b by (simp add: get_prop_selectors)
qed

text \<open>
  Claim C7, amended. For every guard \<open>w\<close>, page state and history, and every \<^verbatim>\<open>$and\<close> or
  \<^verbatim>\<open>$or\<close> node of \<open>w\<close>, with \<open>w'\<close> the guard in which one child is added to that node and \<open>n\<close>
  the number of \<^verbatim>\<open>$not\<close> operators above the node: when \<open>n\<close> is even (no \<^verbatim>\<open>$not\<close> above the node
  is the case \<open>n = 0\<close>), adding a child to a \<^verbatim>\<open>$and\<close> node can only restrict (if the extended
  guard matches, the original matches too) and adding a child to a \<^verbatim>\<open>$or\<close> node can only
  permit (if the original guard matches, the extended matches too); when \<open>n\<close> is odd the two
  directions are exchanged.
\<close>

theorem applicable_monotone:
  assumes "adds_w k n w w'"
  shows "(k = And_node \<and> even n \<longrightarrow>
            applicable w' S H = Inr True \<longrightarrow> applicable w S H = Inr True)
       \<and> (k = Or_node \<and> even n \<longrightarrow>
            applicable w S H = Inr True \<longrightarrow> applicable w' S H = Inr True)
       \<and> (k = And_node \<and> odd n \<longrightarrow>
            applicable w S H = Inr True \<longrightarrow> applicable w' S H = Inr True)
       \<and> (k = Or_node \<and> odd n \<longrightarrow>
            applicable w' S H = Inr True \<longrightarrow> applicable w S H = Inr True)"
  using adds_direction(1) [OF assms, of S H]
  by (cases k) (auto split: if_splits)

theorem applicable_monotone_witness:
  "adds_w And_node 0
      (Where [Op_and (WhereArray [Where []])])
      (Where [Op_and (WhereArray [Where [], Where [Base ''selectors'' (Arr [''#x''])]])])
   \<and> applicable (Where [Op_and (WhereArray [Where [], Where [Base ''selectors'' (Arr [''#x''])]])])
      \<lparr>url = None, cookies = [], selectors = [''#x'']\<rparr> [] = Inr True
   \<and> applicable (Where [Op_and (WhereArray [Where []])])
      \<lparr>url = None, cookies = [], selectors = [''#x'']\<rparr> [] = Inr True
   \<and> adds_w Or_node 0
      (Where [Op_or (WhereObject [Base ''selectors'' (Arr [''#x''])])])
      (Where [Op_or (WhereObject [Base ''selectors'' (Arr [''#x'']), Op_not (Where [])])])
   \<and> applicable (Where [Op_or (WhereObject [Base ''selectors'' (Arr [''#x'']), Op_not (Where [])])])
      \<lparr>url = None, cookies = [], selectors = [''#x'']\<rparr> [] = Inr True
   \<and> applicable (Where [Op_or (WhereObject [Base ''selectors'' (Arr [''#x''])])])
      \<lparr>url = None, cookies = [], selectors = [''#x'']\<rparr> [] = Inr True
   \<and> adds_w And_node 1
      (Where [Op_not (Where [Op_and (WhereArray [Where [Base ''selectors'' (Arr [''#y''])]])])])
      (Where [Op_not (Where [Op_and (WhereArray [Where [Base ''selectors'' (Arr [''#y''])], Where []])])])
   \<and> applicable (Where [Op_not (Where [Op_and (WhereArray [Where [Base ''selectors'' (Arr [''#y''])], Where []])])])
      \<lparr>url = None, cookies = [], selectors = [''#x'']\<rparr> [] = Inr True
   \<and> applicable (Where [Op_not (Where [Op_and (WhereArray [Where [Base ''selectors'' (Arr [''#y''])]])])])
      \<lparr>url = None, cookies = [], selectors = [''#x'']\<rparr> [] = Inr True
   \<and> adds_w Or_node 1
      (Where [Op_not (Where [Op_or (WhereArray [Where [Base ''selectors'' (Arr [''#y''])]])])])
      (Where [Op_not (Where [Op_or (WhereArray [Where [Base ''selectors'' (Arr [''#y''])], Where [Base ''selectors'' (Arr [''#z''])]])])])
   \<and> applicable (Where [Op_not (Where [Op_or (WhereArray [Where [Base ''selectors'' (Arr [''#y''])], Where [Base ''selectors'' (Arr [''#z''])]])])])
      \<lparr>url = None, cookies = [], selectors = [''#x'']\<rparr> [] = Inr True
   \<and> applicable (Where [Op_not (Where [Op_or (WhereArray [Where [Base ''selectors'' (Arr [''#y''])]])])])
      \<lparr>url = None, cookies = [], selectors = [''#x'']\<rparr> [] = Inr True
   \<and> adds_w And_node 2
      (Where [Op_not (Where [Op_or (WhereObject [Op_not (Where [Op_and (WhereArray [Where []])])])])])
      (Where [Op_not (Where [Op_or (WhereObject [Op_not (Where [Op_and (WhereArray [Where [], Where [Base ''selectors'' (Arr [''#x''])]])])])])])
   \<and> applicable (Where [Op_not (Where [Op_or (WhereObject [Op_not (Where [Op_and (WhereArray [Where [], Where [Base ''selectors'' (Arr [''#x''])]])])])])])
      \<lparr>url = None, cookies = [], selectors = [''#x'']\<rparr> [] = Inr True
   \<and> applicable (Where [Op_not (Where [Op_or (WhereObject [Op_not (Where [Op_and (WhereArray [Where []])])])])])
      \<lparr>url = None, cookies = [], selectors = [''#x'']\<rparr> [] = Inr True"
proof -
  have a1: "adds_w And_node 0
      (Where [Op_and (WhereArray [Where []])])
      (Where [Op_and (WhereArray [Where [], Where [Base ''selectors'' (Arr [''#x''])]])])"
    using in_guard [OF and_array [of "[Where []]" "[]" "Where [Base ''selectors'' (Arr [''#x''])]"], of "[]" "[]"]
    by simp
  have a2: "adds_w Or_node 0
      (Where [Op_or (WhereObject [Base ''selectors'' (Arr [''#x''])])])
      (Where [Op_or (WhereObject [Base ''selectors'' (Arr [''#x'']), Op_not (Where [])])])"
    using in_guard [OF or_object [of "[Base ''selectors'' (Arr [''#x''])]" "[]" "Op_not (Where [])"], of "[]" "[]"]
    by simp
  have a3: "adds_w And_node 1
      (Where [Op_not (Where [Op_and (WhereArray [Where [Base ''selectors'' (Arr [''#y''])]])])])
      (Where [Op_not (Where [Op_and (WhereArray [Where [Base ''selectors'' (Arr [''#y''])], Where []])])])"
    using in_guard [OF below_not [OF in_guard [OF and_array [of "[Where [Base ''selectors'' (Arr [''#y''])]]" "[]" "Where []"], of "[]" "[]"]], of "[]" "[]"]
    by simp
  have a4: "adds_w Or_node 1
      (Where [Op_not (Where [Op_or (WhereArray [Where [Base ''selectors'' (Arr [''#y''])]])])])
      (Where [Op_not (Where [Op_or (WhereArray [Where [Base ''selectors'' (Arr [''#y''])], Where [Base ''selectors'' (Arr [''#z''])]])])])"
    using in_guard [OF below_not [OF in_guard [OF or_array [of "[Where [Base ''selectors'' (Arr [''#y''])]]" "[]" "Where [Base ''selectors'' (Arr [''#z''])]"], of "[]" "[]"]], of "[]" "[]"]
    by simp
  have a5: "adds_w And_node 2
      (Where [Op_not (Where [Op_or (WhereObject [Op_not (Where [Op_and (WhereArray [Where []])])])])])
      (Where [Op_not (Where [Op_or (WhereObject [Op_not (Where [Op_and (WhereArray [Where [], Where [Base ''selectors'' (Arr [''#x''])]])])])])])"
    using in_guard [OF below_not [OF in_guard [OF below_or [OF in_object [OF below_not [OF in_guard
      [OF and_array [of "[Where []]" "[]" "Where [Base ''selectors'' (Arr [''#x''])]"], of "[]" "[]"]], of "[]" "[]"]],
      of "[]" "[]"]], of "[]" "[]"]
    by (simp add: numeral_2_eq_2)
  show ?thesis
    using a1 a2 a3 a4 a5
      applicable_monotone [OF a1, of "\<lparr>url = None, cookies = [], selectors = [''#x'']\<rparr>" "[]"]
      applicable_monotone [OF a2, of "\<lparr>url = None, cookies = [], selectors = [''#x'']\<rparr>" "[]"]
      applicable_monotone [OF a3, of "\<lparr>url = None, cookies = [], selectors = [''#x'']\<rparr>" "[]"]
      applicable_monotone [OF a4, of "\<lparr>url = None, cookies = [], selectors = [''#x'']\<rparr>" "[]"]
      applicable_monotone [OF a5, of "\<lparr>url = None, cookies = [], selectors = [''#x'']\<rparr>" "[]"]
    by (simp add: get_prop_selectors)
qed

section \<open>Properties of the executor\<close>

text \<open>The executor records calls and pauses only: the bodies executed are those fired before.\<close>

lemma fired_invoke: "fired (log (snd (invoke p w c))) = fired (log w)"
  by (simp add: invoke_def record_event_def)

lemma fired_executeAction: "fired (log (snd (executeAction p w i m a))) = fired (log w)"
  by (simp add: executeAction_def fired_invoke split: sum.splits)

lemma fired_executeAction': "executeAction p w i m a = (r, w') \<Longrightarrow> fired (log w') = fired (log w)"
  using fired_executeAction [of p w i m a] by simp

lemma fired_invoke': "invoke p w c = (r, w') \<Longrightarrow> fired (log w') = fired (log w)"
  using fired_invoke [of p w c] by simp

lemma fired_carry_step: "carry_step p w s = (r, w') \<Longrightarrow> fired (log w') = fired (log w)"
  unfolding carry_step_def Let_def
  by (auto split: if_splits sum.splits prod.splits dest!: fired_executeAction' fired_invoke')

lemma fired_carryOutSteps: "carryOutSteps p w steps = (r, w') \<Longrightarrow> fired (log w') = fired (log w)"
proof (induction steps arbitrary: w)
  case Nil
  then show ?case by simp
next
  case (Cons s steps)
  obtain r1 w1 where s: "carry_step p w s = (r1, w1)" by (cases "carry_step p w s")
  have f1: "fired (log w1) = fired (log w)" using fired_carry_step [OF s] .
  show ?case
  proof (cases r1)
    case Done
    with Cons.prems s have "carryOutSteps p (record_event (Slept 500) w1) steps = (r, w')" by simp
    from Cons.IH [OF this] f1 show ?thesis by (simp add: record_event_def)
  next
    case Continue
    with Cons.prems s have "carryOutSteps p w1 steps = (r, w')" by simp
    from Cons.IH [OF this] f1 show ?thesis by simp
  next
    case (Threw e)
    with Cons.prems s f1 show ?thesis by simp
  qed
qed

text \<open>
  Claim C3, as stated: when a \<^verbatim>\<open>click\<close> and its retry both fail, the remaining actions of
  the body are skipped. On a page where every click fails, the body \<^verbatim>\<open>click\<close>,
  \<^verbatim>\<open>goto\<close> runs to its end: after the two failed clicks the \<^verbatim>\<open>goto\<close> is called (the
  \<^verbatim>\<open>continue\<close> of the code continues the loop over the steps), and \<^verbatim>\<open>carryOutSteps\<close>
  returns without an error.
\<close>

theorem click_failure_policy_counterexample:
  "carryOutSteps click_fails \<lparr>clock = 0, log = []\<rparr>
      [\<lparr>action = ''click'', args = AArr [AStr ''#next'']\<rparr>,
       \<lparr>action = ''goto'', args = AArr [AStr ''https://example.com/'']\<rparr>]
    = (Inr (), \<lparr>clock = 4, log =
        [Slept 500,
         Called (Method [] ''goto'' [AStr ''https://example.com/'']),
         Called (Method [] ''click'' [AStr ''#next'', AObj [(''force'', ABool True)]]),
         Called (Method [] ''click'' [AStr ''#next''])]\<rparr>)"
  by code_simp

text \<open>
  Claim C3, amended. For a step whose method is \<^verbatim>\<open>click\<close>, when the click fails:
  if the step has arguments, the click is retried once, with the arguments
  \<^verbatim>\<open>[args[0], {force: true}]\<close>; if the retry fails too (or the step has no arguments to
  retry with), the failure is swallowed and the executor continues with the next action of
  the same body, without the pause; if the retry succeeds, it continues after the pause.
\<close>

theorem click_failure_policy:
  assumes "action step \<notin> set wawActions"
    and "last (split_dot (action step)) = ''click''"
    and "resolve page [] (butlast (split_dot (action step))) = Inr invokee"
    and "executeAction page w invokee ''click'' (args step) = (Inl e, w1)"
  shows "(first_arg (args step) = Inr a0
            \<and> executeAction page w1 invokee ''click'' (force_args a0) = (Inl e2, w2)
          \<longrightarrow> carryOutSteps page w (step # steps) = carryOutSteps page w2 steps)
     \<and> (first_arg (args step) = Inr a0
            \<and> executeAction page w1 invokee ''click'' (force_args a0) = (Inr u, w2)
          \<longrightarrow> carryOutSteps page w (step # steps) = carryOutSteps page (record_event (Slept 500) w2) steps)
     \<and> (first_arg (args step) = Inl e1
          \<longrightarrow> carryOutSteps page w (step # steps) = carryOutSteps page w1 steps)
     \<and> (first_arg (args step) = Inr a0 \<and> is_defined page invokee
          \<longrightarrow> log (snd (executeAction page w1 invokee ''click'' (force_args a0)))
              = Called (Method invokee ''click'' [a0, AObj [(''force'', ABool True)]]) # log w1)"
proof -
  have step: "carry_step page w step =
      (case first_arg (args step) of
         Inl e \<Rightarrow> (Continue, w1)
       | Inr a0 \<Rightarrow>
           (case executeAction page w1 invokee ''click'' (force_args a0) of
              (Inr u, w'') \<Rightarrow> (Done, w'')
            | (Inl e, w'') \<Rightarrow> (Continue, w'')))"
    using assms by (auto simp: carry_step_def Let_def split: sum.splits prod.splits)
  have retry: "is_defined page invokee \<Longrightarrow>
      log (snd (executeAction page w1 invokee ''click'' (force_args a0)))
        = Called (Method invokee ''click'' [a0, AObj [(''force'', ABool True)]]) # log w1"
    by (simp add: executeAction_def call_args_def force_args_def invoke_def record_event_def)
  show ?thesis
    using retry by (simp add: step)
qed

theorem click_failure_policy_witness:
  "carryOutSteps click_fails \<lparr>clock = 0, log = []\<rparr>
      [\<lparr>action = ''mouse.click'', args = AArr [AStr ''#next'']\<rparr>,
       \<lparr>action = ''goto'', args = AArr [AStr ''https://example.com/'']\<rparr>]
    = carryOutSteps click_fails
        \<lparr>clock = 2, log =
          [Called (Method [''mouse''] ''click'' [AStr ''#next'', AObj [(''force'', ABool True)]]),
           Called (Method [''mouse''] ''click'' [AStr ''#next''])]\<rparr>
        [\<lparr>action = ''goto'', args = AArr [AStr ''https://example.com/'']\<rparr>]"
proof -
  let ?step = "\<lparr>action = ''mouse.click'', args = AArr [AStr ''#next'']\<rparr>"
  let ?w1 = "\<lparr>clock = 1, log = [Called (Method [''mouse''] ''click'' [AStr ''#next''])]\<rparr>"
  let ?w2 = "\<lparr>clock = 2, log =
          [Called (Method [''mouse''] ''click'' [AStr ''#next'', AObj [(''force'', ABool True)]]),
           Called (Method [''mouse''] ''click'' [AStr ''#next''])]\<rparr>"
  have 1: "action ?step \<notin> set wawActions" by (simp add: wawActions_def)
  have 2: "last (split_dot (action ?step)) = ''click''" by simp
  have 3: "resolve click_fails [] (butlast (split_dot (action ?step))) = Inr [''mouse'']"
    by (simp add: is_defined_def)
  have 4: "executeAction click_fails \<lparr>clock = 0, log = []\<rparr> [''mouse''] ''click'' (args ?step)
      = (Inl DriverError, ?w1)"
    by (simp add: executeAction_def is_defined_def click_fails_def call_args_def invoke_def record_event_def)
  have 5: "first_arg (args ?step) = Inr (AStr ''#next'')" by simp
  have 6: "executeAction click_fails ?w1 [''mouse''] ''click'' (force_args (AStr ''#next''))
      = (Inl DriverError, ?w2)"
    by (simp add: executeAction_def is_defined_def click_fails_def call_args_def invoke_def
        record_event_def force_args_def)
  from click_failure_policy [OF 1 2 3 4, of "AStr ''#next''" DriverError ?w2] 5 6
  show ?thesis by simp
qed

section \<open>Properties of the page state and of the main loop\<close>

lemma state_url_cases:
  "state_url live [] = Some (Str live)"
  "where_prop (pair_where (last (pair # pairs))) ''url'' = None \<Longrightarrow> state_url live (pair # pairs) = None"
  "where_prop (pair_where (last (pair # pairs))) ''url'' = Some v \<Longrightarrow>
     state_url live (pair # pairs) =
       (if differs (Some v) live \<and> differs (Some v) ''about:blank'' then Some v else Some (Str live))"
  by (simp_all add: state_url_def)

text \<open>
  Claim C9 has the reported \<^verbatim>\<open>url\<close> equal to the live URL unless the last pair has a
  \<^verbatim>\<open>where.url\<close> that differs from it. The code at a copy whose last pair has no
  \<^verbatim>\<open>url\<close> in its guard: \<^verbatim>\<open>action.where.url\<close> is \<^verbatim>\<open>undefined\<close>, which differs from both
  strings, and the reported \<^verbatim>\<open>url\<close> is \<^verbatim>\<open>undefined\<close>, not the live URL.
\<close>

theorem state_url_without_guard_url:
  "getState failing_page 0
     [\<lparr>pair_id = None, pair_where = Where [Base ''selectors'' (Arr [''#next''])], what = []\<rparr>] []
   = Inr \<lparr>url = None, cookies = [], selectors = []\<rparr>
   \<and> url_at failing_page 0 = ''https://example.com/''"
  by (simp add: getState_def failing_page_def state_url_def)

lemma loop_body_continue:
  assumes "loop_body m stopped p st w = (Inr st', w')"
  shows "\<exists>addr. lastAction st' = Some addr
     \<and> repeatCount st' = (if lastAction st = Some addr then repeatCount st + 1 else 0)
     \<and> \<not> repeat_limit m (repeatCount st')
     \<and> fired (log w') = addr # fired (log w)"
proof -
  from assms have o: "\<not> (isClosed p (clock w) \<or> stopped (clock w))" "loadState_ok p (clock w)"
    unfolding loop_body_def by (auto split: if_splits)
  from assms o obtain pageState where
    g: "getState p (Suc (clock w)) (map snd (workflowCopy st)) (sels st) = Inr pageState"
    unfolding loop_body_def by (auto split: sum.splits)
  from assms o g obtain actionId where
    m: "getMatchingActionId (map snd (workflowCopy st)) pageState (usedActions st) = Inr (Some actionId)"
    unfolding loop_body_def by (auto split: sum.splits option.splits)
  define addr where "addr = fst (workflowCopy st ! actionId)"
  define matched where "matched = snd (workflowCopy st ! actionId)"
  define count where "count = (if lastAction st = Some addr then repeatCount st + 1 else 0)"
  define w0 where "w0 = record_event (Fired addr) (tick (tick w))"
  obtain r w1 where c: "carryOutSteps p w0 (what matched) = (r, w1)"
    by (cases "carryOutSteps p w0 (what matched)")
  have f: "fired (log w1) = addr # fired (log w)"
    using fired_carryOutSteps [OF c] by (simp add: w0_def record_event_def tick_def)
  have body: "loop_body m stopped p st w =
     (if repeat_limit m count then (Inl Returned, tick (tick w))
      else case r of
          Inr u \<Rightarrow> (Inr ((after_body st actionId matched)\<lparr>lastAction := Some addr, repeatCount := count\<rparr>), w1)
        | Inl e \<Rightarrow> (Inr (st\<lparr>sels := [], lastAction := Some addr, repeatCount := count\<rparr>), w1))"
    using o g m c
    unfolding loop_body_def Let_def addr_def matched_def count_def w0_def
    by (simp split: sum.splits)
  from assms body have lim: "\<not> repeat_limit m count"
    by (auto split: if_splits)
  from assms body lim have "w' = w1 \<and> lastAction st' = Some addr \<and> repeatCount st' = count"
    by (auto simp: after_body_def Let_def split: sum.splits)
  with f lim show ?thesis unfolding count_def by auto
qed

lemma loop_body_stop:
  assumes "loop_body m stopped p st w = (Inl out, w')"
  shows "fired (log w') = fired (log w)"
  using assms unfolding loop_body_def Let_def
  by (auto simp: record_event_def tick_def split: if_splits sum.splits option.splits prod.splits)

lemma loop_body_inv:
  assumes "0 < m" "run_inv m st w" "loop_body m stopped p st w = (Inr st', w')"
  shows "run_inv m st' w'"
proof -
  from loop_body_continue [OF assms(3)] obtain addr where
    l: "lastAction st' = Some addr"
    and c: "repeatCount st' = (if lastAction st = Some addr then repeatCount st + 1 else 0)"
    and lim: "\<not> repeat_limit m (repeatCount st')"
    and f: "fired (log w') = addr # fired (log w)"
    by blast
  from lim assms(1) have le: "repeatCount st' \<le> nat m"
    by (simp add: repeat_limit_def)
  have run: "length (takeWhile (\<lambda>y. y = addr) (fired (log w))) = repeatCount st'"
  proof (cases "lastAction st")
    case None
    with assms(2) c show ?thesis by (simp add: run_inv_def)
  next
    case (Some a)
    with assms(2) obtain rest where r: "fired (log w) = a # rest"
      "length (takeWhile (\<lambda>y. y = a) rest) = repeatCount st"
      by (auto simp: run_inv_def split: list.splits)
    with Some c show ?thesis by auto
  qed
  from assms(2) have "longest_run (fired (log w)) \<le> nat m + 1"
    by (simp add: run_inv_def)
  with run le l f show ?thesis
    by (simp add: run_inv_def)
qed

lemma run_inv_cong: "fired (log w') = fired (log w) \<Longrightarrow> run_inv m st w \<Longrightarrow> run_inv m st w'"
  unfolding run_inv_def by presburger

lemma turns_inv:
  assumes "0 < m"
  shows "run_inv m st w \<Longrightarrow> turns fuel m stopped p st w = (out, st', w') \<Longrightarrow> run_inv m st' w'"
proof (induction fuel arbitrary: st w)
  case 0
  then show ?case by simp
next
  case (Suc fuel)
  obtain r w1 where b: "loop_body m stopped p st w = (r, w1)"
    by (cases "loop_body m stopped p st w")
  show ?case
  proof (cases r)
    case (Inl o1)
    with b Suc.prems(2) have "st' = st" "w' = w1" by simp_all
    with loop_body_stop [of m stopped p st w o1 w1] b Inl Suc.prems(1) show ?thesis
      by (simp add: run_inv_cong)
  next
    case (Inr st1)
    with b Suc.prems(2) have t: "turns fuel m stopped p st1 w1 = (out, st', w')" by simp
    from b Inr have "run_inv m st1 w1"
      using loop_body_inv [OF assms Suc.prems(1)] by simp
    from Suc.IH [OF this t] show ?thesis .
  qed
qed

lemma run_inv_initial: "run_inv m (initial workflow) \<lparr>clock = 0, log = []\<rparr>"
  by (simp add: run_inv_def initial_def)

lemma repeat_limit_step:
  assumes "maxRepeats \<noteq> 0"
    "lastAction st = Some (fst (workflowCopy st ! actionId))" "int (repeatCount st) = maxRepeats"
    "\<not> isClosed p (clock w)" "\<not> stopped (clock w)" "loadState_ok p (clock w)"
    "getState p (Suc (clock w)) (map snd (workflowCopy st)) (sels st) = Inr pageState"
    "getMatchingActionId (map snd (workflowCopy st)) pageState (usedActions st) = Inr (Some actionId)"
  shows "loop_body maxRepeats stopped p st w = (Inl Returned, tick (tick w))"
  using assms unfolding loop_body_def Let_def
  by (simp add: repeat_limit_def)

text \<open>
  Claim C2, as stated: with \<^verbatim>\<open>maxRepeats = m\<close> no body is executed more than \<open>m\<close> times in
  a row. With \<^verbatim>\<open>maxRepeats = 1\<close> the body of the pair that keeps matching is executed
  twice, and the loop returns at the third match.
\<close>

theorem repeat_bound_counterexample:
  "fired (log (snd (snd (runLoop 5 1 (\<lambda>t. False) failing_page [retry_pair])))) = [0, 0]
   \<and> fst (runLoop 5 1 (\<lambda>t. False) failing_page [retry_pair]) = Returned
   \<and> \<not> longest_run [0, 0 :: nat] \<le> nat 1"
  by code_simp

text \<open>
  Claim C2, amended. For every run with \<^verbatim>\<open>maxRepeats = m\<close>, \<open>m \<ge> 1\<close>: no pair's body is
  executed more than \<open>m + 1\<close> times in a row (the first execution and \<open>m\<close> repeats); and
  when the pair of \<^verbatim>\<open>lastAction\<close> is matched again with \<^verbatim>\<open>repeatCount = m\<close>, that is
  after \<open>m + 1\<close> executions in a row (\<open>run_inv\<close>), the loop returns instead of executing it.
\<close>

theorem repeat_bound:
  assumes "0 < maxRepeats"
  shows "longest_run (fired (log (snd (snd (runLoop fuel maxRepeats stopped p workflow))))) \<le> nat maxRepeats + 1
    \<and> (lastAction st = Some (fst (workflowCopy st ! actionId)) \<and> int (repeatCount st) = maxRepeats
        \<and> \<not> isClosed p (clock w) \<and> \<not> stopped (clock w) \<and> loadState_ok p (clock w)
        \<and> getState p (Suc (clock w)) (map snd (workflowCopy st)) (sels st) = Inr pageState
        \<and> getMatchingActionId (map snd (workflowCopy st)) pageState (usedActions st) = Inr (Some actionId)
       \<longrightarrow> loop_body maxRepeats stopped p st w = (Inl Returned, tick (tick w)))"
proof -
  obtain out st' w' where r: "runLoop fuel maxRepeats stopped p workflow = (out, st', w')"
    by (cases "runLoop fuel maxRepeats stopped p workflow")
  then have "run_inv maxRepeats st' w'"
    using turns_inv [OF assms run_inv_initial] by (simp add: runLoop_def)
  then have "longest_run (fired (log w')) \<le> nat maxRepeats + 1"
    by (simp add: run_inv_def)
  with r assms repeat_limit_step [of maxRepeats st actionId p w stopped pageState]
  show ?thesis by auto
qed

theorem repeat_bound_witness:
  "longest_run (fired (log (snd (snd (runLoop 5 1 (\<lambda>t. False) failing_page [retry_pair]))))) \<le> 2
   \<and> loop_body 1 (\<lambda>t. False) failing_page
        \<lparr>workflowCopy = [(0, retry_pair)], usedActions = [], sels = [],
          lastAction = Some 0, repeatCount = 1\<rparr> \<lparr>clock = 0, log = []\<rparr>
      = (Inl Returned, \<lparr>clock = 2, log = []\<rparr>)"
proof -
  let ?st = "\<lparr>workflowCopy = [(0, retry_pair)], usedActions = [], sels = [],
          lastAction = Some 0, repeatCount = 1\<rparr>"
  let ?w = "\<lparr>clock = 0, log = []\<rparr>"
  let ?S = "\<lparr>url = None, cookies = [], selectors = []\<rparr>"
  have g: "getState failing_page (Suc (clock ?w)) (map snd (workflowCopy ?st)) (sels ?st) = Inr ?S"
    by (simp add: getState_def failing_page_def state_url_def retry_pair_def)
  have m: "getMatchingActionId (map snd (workflowCopy ?st)) ?S (usedActions ?st) = Inr (Some 0)"
    by (simp add: getMatchingActionId_def retry_pair_def)
  have o: "\<not> isClosed failing_page (clock ?w)" "loadState_ok failing_page (clock ?w)"
    by (simp_all add: failing_page_def)
  from repeat_bound [where maxRepeats = 1 and fuel = 5 and stopped = "\<lambda>t. False" and p = failing_page
      and workflow = "[retry_pair]" and st = ?st and actionId = 0 and w = ?w and pageState = ?S]
    g m o
  show ?thesis by (simp add: tick_def)
qed

lemma zero_limit: "\<not> repeat_limit 0 count"
  by (simp add: repeat_limit_def)

lemma zero_step:
  assumes "\<not> isClosed p (clock w)" "\<not> stopped (clock w)" "loadState_ok p (clock w)"
    "getState p (Suc (clock w)) (map snd (workflowCopy st)) (sels st) = Inr pageState"
    "getMatchingActionId (map snd (workflowCopy st)) pageState (usedActions st) = Inr (Some actionId)"
  shows "\<exists>st' w'. loop_body 0 stopped p st w = (Inr st', w')
     \<and> fired (log w') = fst (workflowCopy st ! actionId) # fired (log w)"
proof -
  define w0 where "w0 = record_event (Fired (fst (workflowCopy st ! actionId))) (tick (tick w))"
  obtain r w1 where c: "carryOutSteps p w0 (what (snd (workflowCopy st ! actionId))) = (r, w1)"
    by (cases "carryOutSteps p w0 (what (snd (workflowCopy st ! actionId)))")
  have f: "fired (log w1) = fst (workflowCopy st ! actionId) # fired (log w)"
    using fired_carryOutSteps [OF c] by (simp add: w0_def record_event_def tick_def)
  have "\<exists>st'. loop_body 0 stopped p st w = (Inr st', w1)"
    using assms c unfolding loop_body_def Let_def w0_def
    by (simp add: zero_limit split: sum.splits)
  with f show ?thesis by blast
qed

lemma concat_map_Nil: "concat (map (\<lambda>x. []) xs) = []"
  by (induction xs) simp_all

lemma retry_body: "carryOutSteps failing_page w0 (what retry_pair)
     = (Inl DriverError, record_event (Called (Method [] ''goto'' [AStr ''https://example.com/''])) w0)"
  by (simp add: retry_pair_def carry_step_def wawActions_def executeAction_def is_defined_def
      call_args_def invoke_def failing_page_def)

lemma retry_turn:
  assumes "workflowCopy st = [(0, retry_pair)]"
  shows "\<exists>st' w'. loop_body 0 (\<lambda>t. False) failing_page st w = (Inr st', w')
     \<and> workflowCopy st' = [(0, retry_pair)] \<and> fired (log w') = 0 # fired (log w)"
proof -
  have g: "getState failing_page (Suc (clock w)) (map snd (workflowCopy st)) (sels st)
      = Inr \<lparr>url = state_url ''https://example.com/'' [retry_pair], cookies = [], selectors = []\<rparr>"
    by (simp add: getState_def failing_page_def assms concat_map_Nil)
  have m: "getMatchingActionId [retry_pair] pageState used = Inr (Some 0)" for pageState used
    by (simp add: getMatchingActionId_def retry_pair_def)
  have o: "\<not> isClosed failing_page (clock w)" "loadState_ok failing_page (clock w)"
    by (simp_all add: failing_page_def)
  show ?thesis
    unfolding loop_body_def Let_def
    using o g
    by (simp add: m zero_limit assms retry_body record_event_def tick_def)
qed

lemma retry_turns:
  "workflowCopy st = [(0, retry_pair)] \<Longrightarrow>
     \<exists>st' w'. turns n 0 (\<lambda>t. False) failing_page st w = (Running, st', w')
       \<and> fired (log w') = replicate n 0 @ fired (log w)"
proof (induction n arbitrary: st w)
  case 0
  then show ?case by simp
next
  case (Suc n)
  from retry_turn [OF Suc.prems, of w] obtain st1 w1 where
    b: "loop_body 0 (\<lambda>t. False) failing_page st w = (Inr st1, w1)"
    and c: "workflowCopy st1 = [(0, retry_pair)]" and f: "fired (log w1) = 0 # fired (log w)"
    by blast
  from Suc.IH [OF c, of w1] obtain st' w' where
    "turns n 0 (\<lambda>t. False) failing_page st1 w1 = (Running, st', w')"
    "fired (log w') = replicate n 0 @ fired (log w1)"
    by blast
  with b f show ?case by (simp add: replicate_app_Cons_same)
qed

lemma initial_retry: "workflowCopy (initial [retry_pair]) = [(0, retry_pair)]"
  by (simp add: initial_def removeSpecialSelectors_def json_pair_def json_what_def retry_pair_def)

text \<open>
  Claim C10. With \<^verbatim>\<open>maxRepeats = 0\<close> the condition of the repeat guard is false for every
  \<^verbatim>\<open>repeatCount\<close>: whatever the count, a pair that is matched is executed. A pair that
  keeps matching is then executed without bound: on the page where every call fails, the
  loop has executed the pair's body \<open>n\<close> times in a row after \<open>n\<close> turns and is still
  running, for every \<open>n\<close>.
\<close>

theorem maxRepeats_zero:
  "(\<forall>count. \<not> repeat_limit 0 count)
   \<and> (\<not> isClosed p (clock w) \<and> \<not> stopped (clock w) \<and> loadState_ok p (clock w)
       \<and> getState p (Suc (clock w)) (map snd (workflowCopy st)) (sels st) = Inr pageState
       \<and> getMatchingActionId (map snd (workflowCopy st)) pageState (usedActions st) = Inr (Some actionId)
      \<longrightarrow> (\<exists>st' w'. loop_body 0 stopped p st w = (Inr st', w')
            \<and> fired (log w') = fst (workflowCopy st ! actionId) # fired (log w)))
   \<and> (\<forall>n. fst (runLoop n 0 (\<lambda>t. False) failing_page [retry_pair]) = Running
         \<and> fired (log (snd (snd (runLoop n 0 (\<lambda>t. False) failing_page [retry_pair])))) = replicate n 0)"
proof -
  have "fst (runLoop n 0 (\<lambda>t. False) failing_page [retry_pair]) = Running
     \<and> fired (log (snd (snd (runLoop n 0 (\<lambda>t. False) failing_page [retry_pair])))) = replicate n 0" for n
    using retry_turns [OF initial_retry, of n "\<lparr>clock = 0, log = []\<rparr>"]
    by (auto simp: runLoop_def)
  with zero_step [of p w stopped st pageState actionId] show ?thesis
    by (simp add: zero_limit)
qed

theorem maxRepeats_zero_witness:
  "(\<exists>st' w'. loop_body 0 (\<lambda>t. False) failing_page
        \<lparr>workflowCopy = [(0, retry_pair)], usedActions = [], sels = [],
          lastAction = Some 0, repeatCount = 7\<rparr> \<lparr>clock = 0, log = []\<rparr> = (Inr st', w')
       \<and> fired (log w') = [0])
   \<and> fired (log (snd (snd (runLoop 9 0 (\<lambda>t. False) failing_page [retry_pair])))) = replicate 9 0"
proof -
  let ?st = "\<lparr>workflowCopy = [(0, retry_pair)], usedActions = [], sels = [],
          lastAction = Some 0, repeatCount = 7\<rparr>"
  let ?w = "\<lparr>clock = 0, log = []\<rparr>"
  let ?S = "\<lparr>url = None, cookies = [], selectors = []\<rparr>"
  have g: "getState failing_page (Suc (clock ?w)) (map snd (workflowCopy ?st)) (sels ?st) = Inr ?S"
    by (simp add: getState_def failing_page_def state_url_def retry_pair_def)
  have m: "getMatchingActionId (map snd (workflowCopy ?st)) ?S (usedActions ?st) = Inr (Some 0)"
    by (simp add: getMatchingActionId_def retry_pair_def)
  have o: "\<not> isClosed failing_page (clock ?w)" "loadState_ok failing_page (clock ?w)"
    by (simp_all add: failing_page_def)
  from maxRepeats_zero [where p = failing_page and stopped = "\<lambda>t. False" and st = ?st and w = ?w
      and pageState = ?S and actionId = 0] g m o
  show ?thesis by simp
qed
section \<open>Properties of the pagination engine\<close>

text \<open>
  Claim C4 has the list delivered of length at most the limit and without two items of the
  same serialization, for each of the five strategies. The code on a page whose list holds
  the same item twice, with the limit 5: \<^verbatim>\<open>scrollDown\<close> and \<^verbatim>\<open>scrollUp\<close> return both
  copies (their final extraction is added to \<^verbatim>\<open>allResults\<close> as it is, with neither
  \<^verbatim>\<open>scrapeCurrentPage\<close> nor \<^verbatim>\<open>checkLimit\<close>), where \<^verbatim>\<open>clickLoadMore\<close> returns one.
\<close>

theorem scroll_results_not_deduplicated:
  "returned (handlePagination 9 dup_page
      \<lparr>limit = Some 5, pagination_type = ''scrollDown'', pagination_selector = Some ''''\<rparr>)
     = Some [''A'', ''A'']
   \<and> returned (handlePagination 9 dup_page
      \<lparr>limit = Some 5, pagination_type = ''scrollUp'', pagination_selector = Some ''''\<rparr>)
     = Some [''A'', ''A'']
   \<and> \<not> distinct (map (stringify dup_page) [''A'', ''A''])
   \<and> returned (handlePagination 9 dup_page
      \<lparr>limit = Some 5, pagination_type = ''clickLoadMore'', pagination_selector = Some ''.more''\<rparr>)
     = Some [''A'']"
  by code_simp

lemma history_advance [simp]: "history (advance st) = history st"
  by (simp add: advance_def)

lemma history_noted [simp]: "history (noted e st) = e # history st"
  by (simp add: noted_def)

lemma history_attempt_selector:
  "attempt_selector page selector left st = (r, st') \<Longrightarrow> history st' = history st"
  by (induction left arbitrary: st) (auto split: if_splits)

lemma history_findWorkingButton:
  "findWorkingButton page sels0 updated st = (r, st') \<Longrightarrow> history st' = history st"
proof (induction sels0 arbitrary: updated st)
  case Nil
  then show ?case by simp
next
  case (Cons selector rest)
  obtain r1 st1 where a: "attempt_selector page selector MAX_RETRIES st = (r1, st1)"
    by (cases "attempt_selector page selector MAX_RETRIES st")
  from history_attempt_selector [OF a] have h: "history st1 = history st" .
  show ?case
  proof (cases r1)
    case (Inl e)
    with Cons.prems a h show ?thesis by simp
  next
    case (Inr found)
    show ?thesis
    proof (cases found)
      case True
      with Inr Cons.prems a h show ?thesis by simp
    next
      case False
      with Inr Cons.prems a
      have "findWorkingButton page rest (filter (\<lambda>s. s \<noteq> selector) updated) st1 = (r, st')" by simp
      from Cons.IH [OF this] h show ?thesis by simp
    qed
  qed
qed

lemma history_after_click:
  "after_click page left st = (r, st') \<Longrightarrow> history st' = history st"
  by (auto simp: after_click_def split: if_splits)

lemma history_click_attempts:
  "click_attempts page left st = (r, st') \<Longrightarrow>
     \<exists>cs. list_all is_click cs \<and> history st' = cs @ history st"
proof (induction left arbitrary: st)
  case 0
  then show ?case by simp
next
  case (Suc left)
  show ?case
  proof (cases "click_at page (now st)")
    case True
    with Suc.prems have "after_click page left (advance (noted (Click True) st)) = (r, st')" by simp
    from history_after_click [OF this] show ?thesis by simp
  next
    case c: False
    show ?thesis
    proof (cases "dispatchEvent_at page (Suc (now st))")
      case True
      with c Suc.prems
      have "after_click page left (advance (advance (noted (Dispatch True) (noted (Click False) st)))) = (r, st')"
        by simp
      from history_after_click [OF this] show ?thesis by simp
    next
      case d: False
      define st1 where "st1 = advance (advance (noted (Dispatch False) (noted (Click False) st)))"
      have h1: "history st1 = [Dispatch False, Click False] @ history st" by (simp add: st1_def)
      show ?thesis
      proof (cases "left = 0 \<or> \<not> waitForTimeout_at page (now st1)")
        case True
        with c d Suc.prems have "history st' = history st1"
          by (auto simp: st1_def Let_def split: if_splits)
        with h1 show ?thesis by simp
      next
        case False
        with c d Suc.prems have "click_attempts page left (advance st1) = (r, st')"
          by (simp add: st1_def Let_def)
        from Suc.IH [OF this] obtain cs where "list_all is_click cs" "history st' = cs @ history (advance st1)"
          by blast
        with h1 have "list_all is_click (cs @ [Dispatch False, Click False])"
          "history st' = (cs @ [Dispatch False, Click False]) @ history st" by simp_all
        then show ?thesis by blast
      qed
    qed
  qed
qed

lemma history_settle: "settle page st = (r, st') \<Longrightarrow> history st' = history st"
  by (auto simp: settle_def split: if_splits option.splits)

lemma history_scrapeCurrentPage: "scrapeCurrentPage page st = (r, st') \<Longrightarrow> history st' = history st"
  by (auto simp: scrapeCurrentPage_def split: option.splits prod.splits)

lemma history_checkLimit: "checkLimit cfg st = (r, st') \<Longrightarrow> history st' = history st"
  by (auto simp: checkLimit_def split: option.splits if_splits)

lemma loadMore_round_history:
  assumes "loadMore_round page cfg prc c st = ((ret, prc', c'), st')"
  shows "\<exists>cs. list_all is_click cs \<and>
      ((ret \<and> history st' = cs @ history st)
       \<or> (\<exists>hc. ret \<and> history st' = Height hc # cs @ history st)
       \<or> (\<exists>hc new. history st' = Items new # Height hc # cs @ history st
            \<and> (ret \<or> (hc \<and> (new \<or> c = 0) \<and> c' = (if new then 0 else Suc c)))))"
proof -
  obtain r1 st1 where f: "findWorkingButton page (availableSelectors st) (availableSelectors st) st = (r1, st1)"
    by (cases "findWorkingButton page (availableSelectors st) (availableSelectors st) st")
  have h1: "history st1 = history st" using history_findWorkingButton [OF f] .
  show ?thesis
  proof (cases r1)
    case (Inl e)
    with assms f h1 have "ret \<and> history st' = [] @ history st"
      by (simp add: loadMore_round_def)
    then show ?thesis by (intro exI [of _ "[]"]) simp
  next
    case (Inr found)
    obtain workingSelector updatedSelectors where fo: "found = (workingSelector, updatedSelectors)"
      by (cases found)
    define st2 where "st2 = st1\<lparr>availableSelectors := updatedSelectors\<rparr>"
    have h2: "history st2 = history st" using h1 by (simp add: st2_def)
    show ?thesis
    proof (cases "workingSelector = None \<or> workingSelector = Some []")
      case True
      with assms f Inr fo h2 have "ret \<and> history st' = [] @ history st"
        by (auto simp: loadMore_round_def st2_def)
      then show ?thesis by (intro exI [of _ "[]"]) simp
    next
      case ws: False
      obtain r3 st3 where c3: "click_attempts page MAX_RETRIES st2 = (r3, st3)"
        by (cases "click_attempts page MAX_RETRIES st2")
      from history_click_attempts [OF c3] h2 obtain cs where
        cs: "list_all is_click cs" and h3: "history st3 = cs @ history st"
        by auto
      have body3: "loadMore_round page cfg prc c st =
          (case r3 of
             Inl e \<Rightarrow> ((True, prc, c), st3)
           | Inr False \<Rightarrow> ((True, prc, c), st3)
           | Inr True \<Rightarrow>
               (case settle page st3 of
                  (Inl e, st4) \<Rightarrow> ((True, prc, c), st4)
                | (Inr currentHeight, st4) \<Rightarrow>
                    (let heightChanged = (currentHeight \<noteq> previousHeight st4);
                         st5 = noted (Height heightChanged) (st4\<lparr>previousHeight := currentHeight\<rparr>)
                     in case scrapeCurrentPage page st5 of
                          (Inl e, st6) \<Rightarrow> ((True, prc, c), st6)
                        | (Inr u, st6) \<Rightarrow>
                            (let currentResultCount = length (allResults st6);
                                 newItemsAdded = (prc < currentResultCount);
                                 st7 = noted (Items newItemsAdded) st6;
                                 counter = (if newItemsAdded then 0 else Suc c);
                                 previous = (if newItemsAdded then currentResultCount else prc)
                             in if \<not> newItemsAdded \<and> MAX_NO_NEW_ITEMS \<le> counter
                                  then ((True, previous, counter), st7)
                                else
                                  (case checkLimit cfg st7 of
                                     (True, st8) \<Rightarrow> ((True, previous, counter), st8)
                                   | (False, st8) \<Rightarrow> ((\<not> heightChanged, previous, counter), st8))))))"
        using f Inr fo ws c3 by (auto simp: loadMore_round_def st2_def Let_def)
      show ?thesis
      proof (cases "r3 = Inr True")
        case False
        with assms body3 have "ret \<and> st' = st3"
          by (auto split: sum.splits bool.splits)
        with cs h3 show ?thesis by blast
      next
        case True
        obtain r4 st4 where s4: "settle page st3 = (r4, st4)"
          by (cases "settle page st3")
        have h4: "history st4 = cs @ history st" using history_settle [OF s4] h3 by simp
        show ?thesis
        proof (cases r4)
          case (Inl e)
          with assms body3 True s4 have "ret \<and> st' = st4" by simp
          with cs h4 show ?thesis by blast
        next
          case (Inr currentHeight)
          define hc where "hc = (currentHeight \<noteq> previousHeight st4)"
          define st5 where "st5 = noted (Height hc) (st4\<lparr>previousHeight := currentHeight\<rparr>)"
          have h5: "history st5 = Height hc # cs @ history st" using h4 by (simp add: st5_def)
          obtain r6 st6 where s6: "scrapeCurrentPage page st5 = (r6, st6)"
            by (cases "scrapeCurrentPage page st5")
          have h6: "history st6 = Height hc # cs @ history st"
            using history_scrapeCurrentPage [OF s6] h5 by simp
          show ?thesis
          proof (cases r6)
            case (Inl e)
            with assms body3 True s4 Inr s6 have "ret \<and> st' = st6"
              by (simp add: Let_def hc_def st5_def)
            with cs h6 show ?thesis by blast
          next
            case r6: (Inr u)
            define new where "new = (prc < length (allResults st6))"
            define st7 where "st7 = noted (Items new) st6"
            have h7: "history st7 = Items new # Height hc # cs @ history st"
              using h6 by (simp add: st7_def)
            obtain r8 st8 where s8: "checkLimit cfg st7 = (r8, st8)"
              by (cases "checkLimit cfg st7")
            have h8: "history st8 = Items new # Height hc # cs @ history st"
              using history_checkLimit [OF s8] h7 by simp
            have final: "((ret, prc', c'), st') =
                (if \<not> new \<and> MAX_NO_NEW_ITEMS \<le> (if new then 0 else Suc c)
                 then ((True, if new then length (allResults st6) else prc, if new then 0 else Suc c), st7)
                 else if r8 then ((True, if new then length (allResults st6) else prc, if new then 0 else Suc c), st8)
                 else ((\<not> hc, if new then length (allResults st6) else prc, if new then 0 else Suc c), st8))"
              using assms body3 True s4 Inr s6 r6 s8
              unfolding new_def hc_def st5_def st7_def
              by (auto simp: Let_def split: bool.splits if_splits)
            then have "history st' = Items new # Height hc # cs @ history st
                \<and> (ret \<or> (hc \<and> (new \<or> c = 0) \<and> c' = (if new then 0 else Suc c)))"
              using h7 h8 by (auto simp: MAX_NO_NEW_ITEMS_def split: if_splits)
            with cs show ?thesis by blast
          qed
        qed
      qed
    qed
  qed
qed

lemma no_stop_split: "no_stop H \<Longrightarrow> H = later @ earlier \<Longrightarrow> \<not> stopping earlier"
proof (induction later arbitrary: H)
  case Nil
  then show ?case by (cases earlier) auto
next
  case (Cons e later)
  then show ?case by auto
qed

lemma stopping_click: "is_click e \<Longrightarrow> \<not> stopping (e # es)"
  by (cases e) auto

lemma no_stop_clicks: "list_all is_click cs \<Longrightarrow> no_stop H \<Longrightarrow> no_stop (cs @ H)"
  by (induction cs) (auto simp: stopping_click simp del: stopping.simps)

lemma no_new_before_clicks: "list_all is_click cs \<Longrightarrow> no_new_before (cs @ H) = no_new_before H"
proof (induction cs)
  case Nil
  then show ?case by simp
next
  case (Cons e cs)
  then show ?case by (cases e) auto
qed

lemma split_cons:
  "e # X = later @ earlier \<Longrightarrow> (later = [] \<and> earlier = e # X) \<or> (\<exists>l. later = e # l \<and> X = l @ earlier)"
  by (cases later) auto

lemma returned_round:
  assumes X: "no_stop X"
    and forms: "history st' = X \<or> (\<exists>hc. history st' = Height hc # X)
       \<or> (\<exists>hc new. history st' = Items new # Height hc # X)"
    and dec: "history st' = later @ earlier" and stop: "stopping earlier"
  shows "list_all (\<lambda>e. \<not> is_click e) later"
proof -
  from forms consider "history st' = X" | hc where "history st' = Height hc # X"
    | hc new where "history st' = Items new # Height hc # X"
    by blast
  then show ?thesis
  proof cases
    case 1
    with no_stop_split [OF X] dec stop show ?thesis by auto
  next
    case 2
    with dec have "Height hc # X = later @ earlier" by simp
    from split_cons [OF this] no_stop_split [OF X] stop show ?thesis by auto
  next
    case 3
    with dec have "Items new # Height hc # X = later @ earlier" by simp
    from split_cons [OF this] show ?thesis
    proof
      assume "later = [] \<and> earlier = Items new # Height hc # X"
      then show ?thesis by simp
    next
      assume "\<exists>l. later = Items new # l \<and> Height hc # X = l @ earlier"
      then obtain l where l: "later = Items new # l" "Height hc # X = l @ earlier" by blast
      from split_cons [OF l(2)] no_stop_split [OF X] stop l(1) show ?thesis by auto
    qed
  qed
qed

lemma loadMore_rounds_stop:
  "no_stop (history st) \<Longrightarrow> (no_new_before (history st) \<longrightarrow> 1 \<le> c) \<Longrightarrow>
   loadMore_rounds fuel page cfg prc c st = (ret, st') \<Longrightarrow>
   history st' = later @ earlier \<Longrightarrow> stopping earlier \<Longrightarrow>
   ret \<and> list_all (\<lambda>e. \<not> is_click e) later"
proof (induction fuel arbitrary: prc c st)
  case 0
  then have "history st = later @ earlier" by simp
  from no_stop_split [OF "0.prems"(1) this] "0.prems"(5) show ?case by simp
next
  case (Suc fuel)
  obtain r prc1 c1 st1 where rd: "loadMore_round page cfg prc c st = ((r, prc1, c1), st1)"
    by (cases "loadMore_round page cfg prc c st") auto
  from loadMore_round_history [OF rd] obtain cs where cs: "list_all is_click cs"
    and forms: "(r \<and> history st1 = cs @ history st)
       \<or> (\<exists>hc. r \<and> history st1 = Height hc # cs @ history st)
       \<or> (\<exists>hc new. history st1 = Items new # Height hc # cs @ history st
            \<and> (r \<or> (hc \<and> (new \<or> c = 0) \<and> c1 = (if new then 0 else Suc c))))"
    by blast
  have X: "no_stop (cs @ history st)" using no_stop_clicks [OF cs Suc.prems(1)] .
  show ?case
  proof (cases r)
    case True
    with rd Suc.prems(3) have e: "ret" "st' = st1" by simp_all
    from forms have "history st1 = cs @ history st \<or> (\<exists>hc. history st1 = Height hc # cs @ history st)
       \<or> (\<exists>hc new. history st1 = Items new # Height hc # cs @ history st)"
      by blast
    from returned_round [OF X this] Suc.prems(4,5) e show ?thesis by simp
  next
    case False
    with rd Suc.prems(3) have next_rounds: "loadMore_rounds fuel page cfg prc1 c1 st1 = (ret, st')"
      by simp
    from forms False obtain hc new where
      h: "history st1 = Items new # Height hc # cs @ history st"
      and k: "hc" "new \<or> c = 0" "c1 = (if new then 0 else Suc c)"
      by blast
    have nb: "no_new_before (Height hc # cs @ history st) = no_new_before (history st)"
      using no_new_before_clicks [OF cs] by simp
    have "no_stop (history st1)"
      using h k X Suc.prems(2) nb by auto
    moreover have "no_new_before (history st1) \<longrightarrow> 1 \<le> c1"
      using h k by auto
    ultimately show ?thesis
      using Suc.IH [OF _ _ next_rounds Suc.prems(4,5)] by blast
  qed
qed

text \<open>
  Claim C8. In a \<^verbatim>\<open>clickLoadMore\<close> run, take the history of what the engine did, the
  latest event first, and split it at any point into the \<open>later\<close> and the \<open>earlier\<close> events.
  If the latest of the earlier events is a stopping observation, that is (a) the height read
  after a click that succeeded equal to the height read before (\<^verbatim>\<open>previousHeight\<close>, 0
  before the first round), or (b) no new items for the second round in a row, then there is
  no click on the button among the later events, and the function has returned the
  accumulated results.
\<close>

theorem loadMore_stops:
  assumes "pagination_type cfg = ''clickLoadMore''"
    and "handlePagination fuel page cfg = Inr (ret, st')"
    and "history st' = later @ earlier" and "stopping earlier"
  shows "list_all (\<lambda>e. \<not> is_click e) later
     \<and> returned (handlePagination fuel page cfg) = Some (allResults st')"
proof -
  from assms(2) obtain selector where
    p: "paginate fuel page cfg (start (split_comma selector)) = (ret, st')"
    by (auto simp: handlePagination_def split: option.splits)
  define st0 :: "'a pstate" where "st0 = start (split_comma selector)"
  have h0: "history st0 = []" by (simp add: st0_def start_def)
  have "ret \<and> list_all (\<lambda>e. \<not> is_click e) later"
  proof (cases fuel)
    case 0
    with p assms(3,4) h0 show ?thesis by (simp add: st0_def [symmetric])
  next
    case (Suc n)
    obtain r1 st1 where s1: "scrapeCurrentPage page st0 = (r1, st1)"
      by (cases "scrapeCurrentPage page st0")
    have h1: "history st1 = []" using history_scrapeCurrentPage [OF s1] h0 by simp
    obtain r2 st2 where s2: "checkLimit cfg st1 = (r2, st2)"
      by (cases "checkLimit cfg st1")
    have h2: "history st2 = []" using history_checkLimit [OF s2] h1 by simp
    show ?thesis
    proof (cases "r1 = Inr () \<and> \<not> r2")
      case True
      with p Suc assms(1) s1 s2
      have "loadMore_rounds n page cfg (length (allResults st2)) 0 st2 = (ret, st')"
        by (simp add: st0_def [symmetric])
      from loadMore_rounds_stop [OF _ _ this assms(3,4)] h2 show ?thesis by simp
    next
      case False
      with p Suc assms(1) s1 s2 have "history st' = []"
        using h1 h2 by (auto simp: st0_def [symmetric] split: sum.splits bool.splits)
      with assms(3,4) show ?thesis by simp
    qed
  qed
  with assms(2) show ?thesis by simp
qed

theorem loadMore_stops_witness:
  "list_all (\<lambda>e. \<not> is_click e) [Items False]
   \<and> returned (handlePagination 9 dup_page
        \<lparr>limit = Some 5, pagination_type = ''clickLoadMore'', pagination_selector = Some ''.more''\<rparr>)
      = Some [''A'']"
proof -
  let ?cfg = "\<lparr>limit = Some 5, pagination_type = ''clickLoadMore'', pagination_selector = Some ''.more''\<rparr>"
  let ?st = "\<lparr>allResults = [''A''], previousHeight = 900, scrapedItems = [''A''], visitedUrls = [],
       availableSelectors = [''.more''], now = 17,
       history = [Items False, Height False, Click True, Items False, Height True, Click True]\<rparr>"
  have run: "handlePagination 9 dup_page ?cfg = Inr (True, ?st)"
    by code_simp
  have h: "history ?st = [Items False] @ [Height False, Click True, Items False, Height True, Click True]"
    by simp
  have s: "stopping [Height False, Click True, Items False, Height True, Click True]"
    by simp
  from loadMore_stops [OF _ run h s] show ?thesis by simp
qed

end
